theory Spec2Isabelle
  imports Complex_Main
begin

section \<open>JavaScript numbers\<close>

text \<open>
  The heart-rate monitor of \<^verbatim>\<open>src/App.tsx\<close> computes with JavaScript numbers.
  A number is modelled as a finite real or one of the three special values of
  IEEE arithmetic. The special values follow JavaScript: \<^verbatim>\<open>NaN\<close> is contagious and
  compares false with everything, \<^verbatim>\<open>Infinity - Infinity\<close> and \<^verbatim>\<open>0 * Infinity\<close> and
  \<^verbatim>\<open>0 / 0\<close> are \<^verbatim>\<open>NaN\<close>. The sign of a zero is not kept: a division by zero
  takes the zero as positive.

  Finite arithmetic has two readings. In the first a finite result is the exact
  real (no rounding, no overflow); the pipeline is written in it, and what is
  stated on it compares values (a sample with the threshold, a rate with 40 and
  220, a score with 0 and 1) or follows a \<^verbatim>\<open>NaN\<close>. In the second, of the section
  on binary64 rounding, every result is rounded to the nearest binary64 number;
  what depends on the arithmetic of a step itself, the refinement of a peak, the
  normalisation and the synthesized result, is stated on it.
\<close>
datatype jsnum = Num real | PInf | NInf | NaN

fun jneg :: "jsnum \<Rightarrow> jsnum" where
  "jneg (Num a) = Num (- a)"
| "jneg PInf = NInf"
| "jneg NInf = PInf"
| "jneg NaN = NaN"

fun jadd :: "jsnum \<Rightarrow> jsnum \<Rightarrow> jsnum" where
  "jadd (Num a) (Num b) = Num (a + b)"
| "jadd NaN _ = NaN"
| "jadd _ NaN = NaN"
| "jadd PInf NInf = NaN"
| "jadd NInf PInf = NaN"
| "jadd PInf _ = PInf"
| "jadd _ PInf = PInf"
| "jadd NInf _ = NInf"
| "jadd _ NInf = NInf"

definition jsub :: "jsnum \<Rightarrow> jsnum \<Rightarrow> jsnum" where
  "jsub a b = jadd a (jneg b)"

text \<open>The infinity with the sign of a non-zero real.\<close>

definition infOf :: "real \<Rightarrow> jsnum" where
  "infOf s = (if 0 < s then PInf else NInf)"

fun jmul :: "jsnum \<Rightarrow> jsnum \<Rightarrow> jsnum" where
  "jmul (Num a) (Num b) = Num (a * b)"
| "jmul NaN _ = NaN"
| "jmul _ NaN = NaN"
| "jmul (Num a) PInf = (if a = 0 then NaN else infOf a)"
| "jmul (Num a) NInf = (if a = 0 then NaN else infOf (- a))"
| "jmul PInf (Num b) = (if b = 0 then NaN else infOf b)"
| "jmul NInf (Num b) = (if b = 0 then NaN else infOf (- b))"
| "jmul PInf PInf = PInf"
| "jmul NInf NInf = PInf"
| "jmul PInf NInf = NInf"
| "jmul NInf PInf = NInf"

fun jdiv :: "jsnum \<Rightarrow> jsnum \<Rightarrow> jsnum" where
  "jdiv (Num a) (Num b) =
     (if b \<noteq> 0 then Num (a / b) else if a = 0 then NaN else infOf a)"
| "jdiv NaN _ = NaN"
| "jdiv _ NaN = NaN"
| "jdiv (Num a) PInf = Num 0"
| "jdiv (Num a) NInf = Num 0"
| "jdiv PInf (Num b) = (if 0 \<le> b then PInf else NInf)"
| "jdiv NInf (Num b) = (if 0 \<le> b then NInf else PInf)"
| "jdiv PInf PInf = NaN"
| "jdiv PInf NInf = NaN"
| "jdiv NInf PInf = NaN"
| "jdiv NInf NInf = NaN"

text \<open>\<^verbatim>\<open>a < b\<close>; the other comparisons are written with it.\<close>

fun jlt :: "jsnum \<Rightarrow> jsnum \<Rightarrow> bool" where
  "jlt (Num a) (Num b) = (a < b)"
| "jlt NaN _ = False"
| "jlt _ NaN = False"
| "jlt NInf NInf = False"
| "jlt NInf _ = True"
| "jlt PInf _ = False"
| "jlt (Num a) PInf = True"
| "jlt (Num a) NInf = False"

definition jgt :: "jsnum \<Rightarrow> jsnum \<Rightarrow> bool" where
  "jgt a b = jlt b a"

text \<open>\<^verbatim>\<open>a === b\<close> on numbers.\<close>

definition jeq :: "jsnum \<Rightarrow> jsnum \<Rightarrow> bool" where
  "jeq a b = (a \<noteq> NaN \<and> a = b)"

text \<open>\<^verbatim>\<open>a <= b\<close>, \<^verbatim>\<open>a >= b\<close>.\<close>

definition jle :: "jsnum \<Rightarrow> jsnum \<Rightarrow> bool" where
  "jle a b = (jlt a b \<or> jeq a b)"

definition jge :: "jsnum \<Rightarrow> jsnum \<Rightarrow> bool" where
  "jge a b = jle b a"

fun jabs :: "jsnum \<Rightarrow> jsnum" where
  "jabs (Num a) = Num \<bar>a\<bar>"
| "jabs PInf = PInf"
| "jabs NInf = PInf"
| "jabs NaN = NaN"

text \<open>\<^verbatim>\<open>Math.min(a, b)\<close> and \<^verbatim>\<open>Math.max(a, b)\<close>: \<^verbatim>\<open>NaN\<close> when an argument is.\<close>

definition jmin2 :: "jsnum \<Rightarrow> jsnum \<Rightarrow> jsnum" where
  "jmin2 a b = (if a = NaN \<or> b = NaN then NaN else if jlt b a then b else a)"

definition jmax2 :: "jsnum \<Rightarrow> jsnum \<Rightarrow> jsnum" where
  "jmax2 a b = (if a = NaN \<or> b = NaN then NaN else if jlt a b then b else a)"

text \<open>\<^verbatim>\<open>Math.min(...data)\<close> and \<^verbatim>\<open>Math.max(...data)\<close>; of no argument they are
  \<^verbatim>\<open>Infinity\<close> and \<^verbatim>\<open>-Infinity\<close>.\<close>

definition mathMin :: "jsnum list \<Rightarrow> jsnum" where
  "mathMin xs = foldl jmin2 PInf xs"

definition mathMax :: "jsnum list \<Rightarrow> jsnum" where
  "mathMax xs = foldl jmax2 NInf xs"

fun jsqrt :: "jsnum \<Rightarrow> jsnum" where
  "jsqrt (Num a) = (if 0 \<le> a then Num (sqrt a) else NaN)"
| "jsqrt PInf = PInf"
| "jsqrt NInf = NaN"
| "jsqrt NaN = NaN"

text \<open>\<^verbatim>\<open>Math.pow(x, 2)\<close>.\<close>

fun jpow2 :: "jsnum \<Rightarrow> jsnum" where
  "jpow2 (Num a) = Num (a * a)"
| "jpow2 PInf = PInf"
| "jpow2 NInf = PInf"
| "jpow2 NaN = NaN"

text \<open>\<^verbatim>\<open>Math.round\<close> rounds to the nearest integer, a half upwards;
  \<^verbatim>\<open>Math.floor\<close> rounds down.\<close>

definition roundHalfUp :: "real \<Rightarrow> int" where
  "roundHalfUp x = \<lfloor>x + 1 / 2\<rfloor>"

fun jround :: "jsnum \<Rightarrow> jsnum" where
  "jround (Num a) = Num (of_int (roundHalfUp a))"
| "jround PInf = PInf"
| "jround NInf = NInf"
| "jround NaN = NaN"

fun jfloor :: "jsnum \<Rightarrow> jsnum" where
  "jfloor (Num a) = Num (of_int \<lfloor>a\<rfloor>)"
| "jfloor PInf = PInf"
| "jfloor NInf = NInf"
| "jfloor NaN = NaN"

text \<open>A number is falsy when it is zero or \<^verbatim>\<open>NaN\<close>.\<close>

definition truthy :: "jsnum \<Rightarrow> bool" where
  "truthy a = (a \<noteq> Num 0 \<and> a \<noteq> NaN)"

text \<open>\<^verbatim>\<open>data.reduce((sum, val) => sum + val, 0)\<close>.\<close>

definition jsum :: "jsnum list \<Rightarrow> jsnum" where
  "jsum xs = foldl jadd (Num 0) xs"

text \<open>\<^verbatim>\<open>data[i]\<close> for a number \<^verbatim>\<open>i\<close>: the element when \<^verbatim>\<open>i\<close> is an index of
  the array, and \<^verbatim>\<open>undefined\<close> otherwise, also at an \<^verbatim>\<open>i\<close> that is not an
  integer. In arithmetic \<^verbatim>\<open>undefined\<close> becomes \<^verbatim>\<open>NaN\<close>, and every read of the
  model is inside a sum or a comparison with a number.\<close>

definition jsIndex :: "jsnum list \<Rightarrow> real \<Rightarrow> jsnum" where
  "jsIndex data x =
     (if 0 \<le> x \<and> x = of_int \<lfloor>x\<rfloor> \<and> nat \<lfloor>x\<rfloor> < length data
      then data ! nat \<lfloor>x\<rfloor> else NaN)"

section \<open>Binary64 rounding\<close>

text \<open>
  The result of an arithmetic operation of JavaScript is the exact result rounded
  to the nearest binary64 number, a tie to the one with an even significand, and
  to an infinity beyond the largest one. \<open>exponentOf x\<close> is the binary exponent of
  \<open>x\<close>, not below that of the subnormal numbers; the binary64 numbers near \<open>x\<close> are
  the integer multiples of 2 to the power \<open>exponentOf x - 52\<close>.
\<close>

definition roundTiesEven :: "real \<Rightarrow> int" where
  "roundTiesEven x =
     (let f = \<lfloor>x\<rfloor>; r = x - of_int f
      in if r < 1 / 2 then f else if 1 / 2 < r then f + 1 else if even f then f else f + 1)"

definition exponentOf :: "real \<Rightarrow> int" where
  "exponentOf x = max \<lfloor>log 2 \<bar>x\<bar>\<rfloor> (- 1022)"

definition toDouble :: "real \<Rightarrow> jsnum" where
  "toDouble x =
     (if x = 0 then Num 0
      else let ulp = 2 powr of_int (exponentOf x - 52);
               y = of_int (roundTiesEven (x / ulp)) * ulp
           in if \<bar>y\<bar> < 2 ^ 1024 then Num y else infOf x)"

fun rnd :: "jsnum \<Rightarrow> jsnum" where
  "rnd (Num x) = toDouble x"
| "rnd PInf = PInf"
| "rnd NInf = NInf"
| "rnd NaN = NaN"

text \<open>\<^verbatim>\<open>a + b\<close>, \<^verbatim>\<open>a - b\<close>, \<^verbatim>\<open>a * b\<close>, \<^verbatim>\<open>a / b\<close> with the rounding.\<close>

definition dadd :: "jsnum \<Rightarrow> jsnum \<Rightarrow> jsnum" where
  "dadd a b = rnd (jadd a b)"

definition dsub :: "jsnum \<Rightarrow> jsnum \<Rightarrow> jsnum" where
  "dsub a b = rnd (jsub a b)"

definition dmul :: "jsnum \<Rightarrow> jsnum \<Rightarrow> jsnum" where
  "dmul a b = rnd (jmul a b)"

definition ddiv :: "jsnum \<Rightarrow> jsnum \<Rightarrow> jsnum" where
  "ddiv a b = rnd (jdiv a b)"

text \<open>The reals that are binary64 numbers.\<close>

definition isDouble :: "real \<Rightarrow> bool" where
  "isDouble x = (toDouble x = Num x)"

section \<open>Liveness classifier\<close>

text \<open>\<^verbatim>\<open>verifyHumanFingerprint\<close>; \<^verbatim>\<open>blueVal || 1\<close> is 1 when the blue value
  is falsy.\<close>

definition verifyHumanFingerprint :: "jsnum \<Rightarrow> jsnum \<Rightarrow> jsnum \<Rightarrow> bool" where
  "verifyHumanFingerprint redVal greenVal blueVal =
     (let isRedDominant = (jgt redVal greenVal \<and> jgt redVal blueVal);
          isGreenSecondary = jgt greenVal blueVal;
          redToBlueRatio = jdiv redVal (if truthy blueVal then blueVal else Num 1);
          hasExpectedColorProfile = jgt redToBlueRatio (Num (13 / 10))
      in isRedDominant \<and> isGreenSecondary \<and> hasExpectedColorProfile)"

section \<open>Signal conditioner\<close>

text \<open>\<^verbatim>\<open>applySavitzkyGolayFilter\<close>: a distance-weighted average over the window
  around each sample. The inner loop runs from \<^verbatim>\<open>max(0, i - halfWindow)\<close> to
  \<^verbatim>\<open>min(data.length - 1, i + halfWindow)\<close>; on naturals \<open>i - halfWindow\<close> is
  already cut at 0. The polynomial order is not used by the source.\<close>

definition sgStep :: "jsnum list \<Rightarrow> nat \<Rightarrow> jsnum \<times> jsnum \<Rightarrow> nat \<Rightarrow> jsnum \<times> jsnum" where
  "sgStep data i acc j =
     (let distance = \<bar>real i - real j\<bar>;
          weight = Num (1 / (1 + distance * distance))
      in (jadd (fst acc) (jmul (data ! j) weight), jadd (snd acc) weight))"

definition sgPoint :: "jsnum list \<Rightarrow> nat \<Rightarrow> nat \<Rightarrow> jsnum" where
  "sgPoint data halfWindow i =
     (let acc = foldl (sgStep data i) (Num 0, Num 0)
                  [i - halfWindow ..< Suc (min (length data - 1) (i + halfWindow))]
      in jdiv (fst acc) (snd acc))"

definition applySavitzkyGolayFilter :: "jsnum list \<Rightarrow> nat \<Rightarrow> nat \<Rightarrow> jsnum list" where
  "applySavitzkyGolayFilter data windowSize polynomialOrder =
     (let halfWindow = windowSize div 2
      in map (sgPoint data halfWindow) [0 ..< length data])"

text \<open>The loop \<^verbatim>\<open>for (let j = a; j < b; j++) baselineSum += data[j]\<close>. Its counter
  is a number, not an index: it starts at \<^verbatim>\<open>i + windowSize/3\<close> in the second loop
  of \<^verbatim>\<open>removeBaselineWander\<close>.\<close>

function sumFrom :: "jsnum list \<Rightarrow> real \<Rightarrow> real \<Rightarrow> jsnum \<Rightarrow> jsnum" where
  "sumFrom data j b acc =
     (if j < b then sumFrom data (j + 1) b (jadd acc (jsIndex data j)) else acc)"
  by pat_completeness auto
termination
proof (relation "measure (\<lambda>(data, j, b, acc). nat \<lceil>b - j\<rceil>)")
  show "wf (measure (\<lambda>(data, j, b, acc). nat \<lceil>b - j\<rceil>))"
    by simp
next
  fix data :: "jsnum list" and j b :: real and acc :: jsnum
  assume "j < b"
  then have "0 < \<lceil>b - j\<rceil>" and "\<lceil>b - (j + 1)\<rceil> = \<lceil>b - j\<rceil> - 1"
    by linarith+
  then show "((data, j + 1, b, jadd acc (jsIndex data j)), (data, j, b, acc))
              \<in> measure (\<lambda>(data, j, b, acc). nat \<lceil>b - j\<rceil>)"
    by simp
qed

text \<open>The equation of the loop is unfolded by hand in the proofs.\<close>

declare sumFrom.simps [simp del]

text \<open>\<^verbatim>\<open>removeBaselineWander\<close>. The baseline of sample \<open>i\<close> is read from
  \<^verbatim>\<open>data\<close>, the result is a copy updated in place.\<close>

definition baselineAt :: "jsnum list \<Rightarrow> nat \<Rightarrow> nat \<Rightarrow> jsnum" where
  "baselineAt data windowSize i =
     (let s1 = sumFrom data (real i - real windowSize) (real i - real windowSize / 3) (Num 0);
          baselineSum = sumFrom data (real i + real windowSize / 3) (real i + real windowSize) s1
      in jdiv baselineSum (Num (real windowSize * 2 - real windowSize / (3 / 2))))"

definition removeBaselineWander :: "jsnum list \<Rightarrow> jsnum list" where
  "removeBaselineWander data =
     (let windowSize = min 50 (length data div 4)
      in if windowSize < 3 then data
         else foldl (\<lambda>result i.
                 result[i := jadd (jsub (data ! i) (baselineAt data windowSize i)) (Num 50)])
               data [windowSize ..< length data - windowSize])"

text \<open>\<^verbatim>\<open>normalizeSignal\<close>, in the exact reading.\<close>

definition normalizeSignal :: "jsnum list \<Rightarrow> jsnum list" where
  "normalizeSignal data =
     (if length data = 0 then data
      else let mn = mathMin data; mx = mathMax data
           in if jeq mx mn then map (\<lambda>val. Num 50) data
              else map (\<lambda>val. jadd (jmul (jdiv (jsub val mn) (jsub mx mn)) (Num 80)) (Num 10))
                     data)"


text \<open>\<^verbatim>\<open>applyAdvancedSignalProcessing\<close> and \<^verbatim>\<open>processPPG\<close>.\<close>

definition applyAdvancedSignalProcessing :: "jsnum list \<Rightarrow> jsnum list" where
  "applyAdvancedSignalProcessing data =
     (if length data < 20 then data
      else let smoothedData = applySavitzkyGolayFilter data 5 3;
               baselineCorrected = removeBaselineWander smoothedData
           in normalizeSignal baselineCorrected)"

definition processPPG :: "jsnum list \<Rightarrow> jsnum list" where
  "processPPG data = (if length data \<le> 10 then data else applyAdvancedSignalProcessing data)"

section \<open>Peak detector\<close>

text \<open>\<^verbatim>\<open>refinePeakLocation\<close>, in the exact reading. The three reads are inside the
  array once the guard has passed.\<close>

definition refinePeakLocation :: "jsnum list \<Rightarrow> int \<Rightarrow> jsnum" where
  "refinePeakLocation data peakIndex =
     (if peakIndex \<le> 0 \<or> peakIndex \<ge> int (length data) - 1 then Num (of_int peakIndex)
      else let y1 = data ! nat (peakIndex - 1);
               y2 = data ! nat peakIndex;
               y3 = data ! nat (peakIndex + 1);
               offset = jdiv (jsub y1 y3) (jmul (Num 2) (jadd (jsub y1 (jmul (Num 2) y2)) y3))
           in if jlt (jabs offset) (Num 1) then jadd (Num (of_int peakIndex)) offset
              else Num (of_int peakIndex))"

text \<open>One round of the search loop of \<^verbatim>\<open>enhancedPeakDetection\<close>, at index \<open>i\<close>,
  with the peaks found so far.\<close>

definition minPeakDistance :: jsnum where
  "minPeakDistance = Num 8"

definition peakStep :: "jsnum list \<Rightarrow> jsnum \<Rightarrow> jsnum list \<Rightarrow> nat \<Rightarrow> jsnum list" where
  "peakStep data adaptiveThreshold peaks i =
     (if jgt (data ! i) adaptiveThreshold \<and>
         jgt (data ! i) (data ! (i - 1)) \<and>
         jgt (data ! i) (data ! (i - 2)) \<and>
         jgt (data ! i) (data ! (i + 1)) \<and>
         jgt (data ! i) (data ! (i + 2))
      then let tooClose = list_ex (\<lambda>peakIndex.
                   jlt (jabs (jsub (Num (real i)) peakIndex)) minPeakDistance) peaks
           in if \<not> tooClose then peaks @ [refinePeakLocation data (int i)] else peaks
      else peaks)"

definition adaptiveThresholdOf :: "jsnum list \<Rightarrow> jsnum" where
  "adaptiveThresholdOf data =
     (let mean = jdiv (jsum data) (Num (real (length data)));
          variance = jdiv (foldl (\<lambda>sum val. jadd sum (jpow2 (jsub val mean))) (Num 0) data)
                       (Num (real (length data)));
          stdDev = jsqrt variance;
          noiseFactor = jmin2 (Num 1) (jdiv stdDev (Num 20))
      in jadd mean (jmul (jadd (Num (3 / 2)) noiseFactor) stdDev))"

definition enhancedPeakDetection :: "jsnum list \<Rightarrow> jsnum list" where
  "enhancedPeakDetection data =
     (if length data < 10 then []
      else foldl (peakStep data (adaptiveThresholdOf data)) [] [2 ..< length data - 2])"

text \<open>\<^verbatim>\<open>refinePeakLocation\<close> with the rounding of every operation, and the round of
  the search loop with it and with the rounded distance \<^verbatim>\<open>i - peakIndex\<close>.\<close>

definition refinePeakLocationDouble :: "jsnum list \<Rightarrow> int \<Rightarrow> jsnum" where
  "refinePeakLocationDouble data peakIndex =
     (if peakIndex \<le> 0 \<or> peakIndex \<ge> int (length data) - 1 then Num (of_int peakIndex)
      else let y1 = data ! nat (peakIndex - 1);
               y2 = data ! nat peakIndex;
               y3 = data ! nat (peakIndex + 1);
               offset = ddiv (dsub y1 y3) (dmul (Num 2) (dadd (dsub y1 (dmul (Num 2) y2)) y3))
           in if jlt (jabs offset) (Num 1) then dadd (Num (of_int peakIndex)) offset
              else Num (of_int peakIndex))"

definition peakStepDouble :: "jsnum list \<Rightarrow> jsnum \<Rightarrow> jsnum list \<Rightarrow> nat \<Rightarrow> jsnum list" where
  "peakStepDouble data adaptiveThreshold peaks i =
     (if jgt (data ! i) adaptiveThreshold \<and>
         jgt (data ! i) (data ! (i - 1)) \<and>
         jgt (data ! i) (data ! (i - 2)) \<and>
         jgt (data ! i) (data ! (i + 1)) \<and>
         jgt (data ! i) (data ! (i + 2))
      then let tooClose = list_ex (\<lambda>peakIndex.
                   jlt (jabs (dsub (Num (real i)) peakIndex)) minPeakDistance) peaks
           in if \<not> tooClose then peaks @ [refinePeakLocationDouble data (int i)] else peaks
      else peaks)"

section \<open>Rate filter\<close>

text \<open>\<^verbatim>\<open>kalmanFilterHeartRate\<close> builds its state object at every call, from the
  displayed heart rate (\<^verbatim>\<open>heartRate || 75\<close>) and the constant 100, updates it and
  returns the rounded estimate. The displayed heart rate is \<^verbatim>\<open>null\<close> or a number.\<close>

record FilterState =
  estimate :: jsnum
  errorCovariance :: jsnum

definition kalmanInitialState :: "jsnum option \<Rightarrow> FilterState" where
  "kalmanInitialState heartRate =
     \<lparr> estimate = (case heartRate of None \<Rightarrow> Num 75
                    | Some h \<Rightarrow> if truthy h then h else Num 75),
       errorCovariance = Num 100 \<rparr>"

definition processNoise :: jsnum where
  "processNoise = Num 1"

definition predictedErrorCovarianceOf :: "FilterState \<Rightarrow> jsnum" where
  "predictedErrorCovarianceOf state = jadd (errorCovariance state) processNoise"

definition kalmanGainOf :: "FilterState \<Rightarrow> jsnum \<Rightarrow> jsnum" where
  "kalmanGainOf state uncertainty =
     (let measurementNoise = jsub (Num 100) uncertainty;
          predictedErrorCovariance = predictedErrorCovarianceOf state
      in jdiv predictedErrorCovariance (jadd predictedErrorCovariance measurementNoise))"

definition kalmanUpdate :: "FilterState \<Rightarrow> jsnum \<Rightarrow> jsnum \<Rightarrow> FilterState" where
  "kalmanUpdate state newMeasurement uncertainty =
     (let predictedEstimate = estimate state;
          predictedErrorCovariance = predictedErrorCovarianceOf state;
          kalmanGain = kalmanGainOf state uncertainty;
          updatedEstimate =
            jadd predictedEstimate (jmul kalmanGain (jsub newMeasurement predictedEstimate));
          updatedErrorCovariance = jmul (jsub (Num 1) kalmanGain) predictedErrorCovariance
      in \<lparr> estimate = updatedEstimate, errorCovariance = updatedErrorCovariance \<rparr>)"

definition kalmanFilterHeartRate :: "jsnum option \<Rightarrow> jsnum \<Rightarrow> jsnum \<Rightarrow> jsnum" where
  "kalmanFilterHeartRate heartRate newMeasurement uncertainty =
     jround (estimate (kalmanUpdate (kalmanInitialState heartRate) newMeasurement uncertainty))"

section \<open>Signal quality and oxygenation\<close>

text \<open>The differences of consecutive peaks, as both \<^verbatim>\<open>calculateSignalQuality\<close> and
  the sampling callback compute them.\<close>

definition intervalsOf :: "jsnum list \<Rightarrow> jsnum list" where
  "intervalsOf peaks = map (\<lambda>i. jsub (peaks ! i) (peaks ! (i - 1))) [1 ..< length peaks]"

definition calculateSignalQuality :: "jsnum list \<Rightarrow> jsnum" where
  "calculateSignalQuality data =
     (if length data < 20 then Num 0
      else let peaks = enhancedPeakDetection data
           in if length peaks < 2 then Num (2 / 10)
              else let intervals = intervalsOf peaks;
                       meanInterval = jdiv (jsum intervals) (Num (real (length intervals)));
                       intervalVariance =
                         jdiv (foldl (\<lambda>sum val. jadd sum (jpow2 (jsub val meanInterval)))
                                 (Num 0) intervals)
                           (Num (real (length intervals)));
                       cv = jdiv (jsqrt intervalVariance) meanInterval;
                       regularityScore = jmax2 (Num 0) (jmin2 (Num 1) (jsub (Num 1) cv));
                       signalStrength = jdiv (jsub (mathMax data) (mathMin data)) (Num 50);
                       amplitudeScore = jmin2 (Num 1) signalStrength
                   in jadd (jmul (Num (7 / 10)) regularityScore)
                        (jmul (Num (3 / 10)) amplitudeScore))"

definition calculatePulsatilityIndex :: "jsnum list \<Rightarrow> jsnum" where
  "calculatePulsatilityIndex data =
     (if length data < 5 then Num 0
      else let mx = mathMax data;
               mn = mathMin data;
               mean = jdiv (jsum data) (Num (real (length data)))
           in if jeq mean (Num 0) then Num 0 else jdiv (jsub mx mn) mean)"

text \<open>\<^verbatim>\<open>data.slice(-100)\<close>.\<close>

definition sliceLast :: "nat \<Rightarrow> 'a list \<Rightarrow> 'a list" where
  "sliceLast n xs = drop (length xs - n) xs"

text \<open>\<^verbatim>\<open>enhancedOxygenEstimation\<close>; \<open>None\<close> is \<^verbatim>\<open>null\<close>.\<close>

definition enhancedOxygenEstimation ::
  "jsnum list \<Rightarrow> jsnum list \<Rightarrow> jsnum list \<Rightarrow> jsnum option" where
  "enhancedOxygenEstimation redData greenData blueData =
     (if length redData < 30 \<or> length greenData < 30 \<or> length blueData < 30 then None
      else let processedRed = applyAdvancedSignalProcessing (sliceLast 100 redData);
               processedGreen = applyAdvancedSignalProcessing (sliceLast 100 greenData);
               processedBlue = applyAdvancedSignalProcessing (sliceLast 100 blueData);
               redPI = calculatePulsatilityIndex processedRed;
               greenPI = calculatePulsatilityIndex processedGreen;
               bluePI = calculatePulsatilityIndex processedBlue;
               r1 = jdiv redPI greenPI;
               r2 = jdiv redPI bluePI;
               spO2Estimate1 = jsub (Num 110) (jmul (Num 25) r1);
               spO2Estimate2 = jsub (Num 104) (jmul (Num 17) r2);
               redQuality = calculateSignalQuality processedRed;
               greenQuality = calculateSignalQuality processedGreen;
               blueQuality = calculateSignalQuality processedBlue;
               w1 = jmul redQuality greenQuality;
               w2 = jmul redQuality blueQuality;
               totalWeight = jadd w1 w2
           in if jgt totalWeight (Num 0)
              then let spO2 = jround (jdiv (jadd (jmul spO2Estimate1 w1) (jmul spO2Estimate2 w2))
                                       totalWeight)
                   in Some (jmin2 (Num 100) (jmax2 (Num 85) spO2))
              else Some (Num 97))"

section \<open>The rate filter in closed form\<close>

text \<open>The gain of a call whose confidence is \<open>c\<close>: the state is rebuilt with error
  covariance 100, so the gain depends on the confidence only.\<close>

definition gainAt :: "real \<Rightarrow> real" where
  "gainAt c = 101 / (201 - c)"

text \<open>The filter on a finite prior estimate \<open>e\<close>.\<close>

definition filterReal :: "real \<Rightarrow> real \<Rightarrow> real \<Rightarrow> int" where
  "filterReal e m c = roundHalfUp (e + gainAt c * (m - e))"

section \<open>Notions used in the statements and proofs about the peak detector\<close>

text \<open>The peaks found before index \<open>i\<close>: finite positions, each more than 7.5 after
  the one before, all below \<open>i - 1/2\<close>.\<close>

definition peaksBefore :: "nat \<Rightarrow> jsnum list \<Rightarrow> bool" where
  "peaksBefore i peaks =
     (\<exists>ps. peaks = map Num ps \<and> sorted_wrt (\<lambda>a b. a + 15 / 2 < b) ps \<and>
           list_all (\<lambda>p. p < real i - 1 / 2) ps)"

text \<open>A signal of 21 samples with a symmetric peak at index 5 and a peak at index 13
  whose left neighbour is higher than its right one.\<close>

definition twoPeakSignal :: "jsnum list" where
  "twoPeakSignal = map Num [0, 0, 0, 0, 0, 100, 0, 0, 0, 0, 0, 0, 50, 100, 0, 0, 0, 0, 0, 0, 0]"

text \<open>A signal of 21 samples with a symmetric peak at index 5 and a peak at index 13
  that leans to the left by an eighth of a sample.\<close>

definition closePeakSignal :: "jsnum list" where
  "closePeakSignal = map Num [0, 0, 0, 0, 0, 100, 0, 0, 0, 0, 0, 0, 40, 100, 0, 0, 0, 0, 0, 0, 0]"

section \<open>Notions used in the statements about the signal quality\<close>

text \<open>The finite numbers, and the real a finite number stands for.\<close>

fun isNum :: "jsnum \<Rightarrow> bool" where
  "isNum (Num a) = True"
| "isNum _ = False"

fun theNum :: "jsnum \<Rightarrow> real" where
  "theNum (Num a) = a"
| "theNum _ = 0"

text \<open>The quality score in the words of the specification: \<open>clamp\<close> cuts a value
  to an interval, the intervals between consecutive peaks, and the coefficient of
  variation of a list (standard deviation over mean, both over the whole list).\<close>

definition clamp :: "real \<Rightarrow> real \<Rightarrow> real \<Rightarrow> real" where
  "clamp x lo hi = max lo (min hi x)"

definition peakIntervals :: "real list \<Rightarrow> real list" where
  "peakIntervals ps = map (\<lambda>i. ps ! i - ps ! (i - 1)) [1 ..< length ps]"

definition coefficientOfVariation :: "real list \<Rightarrow> real" where
  "coefficientOfVariation ds =
     (let mean = sum_list ds / real (length ds);
          variance = (\<Sum>d\<leftarrow>ds. (d - mean) * (d - mean)) / real (length ds)
      in sqrt variance / mean)"

section \<open>Session controller\<close>

text \<open>
  The component state the pipeline reads and writes. A callback is a closure of
  the render that created it: the state variables it reads by name
  (\<^verbatim>\<open>signal\<close>, \<^verbatim>\<open>heartRate\<close>, \<^verbatim>\<open>confidence\<close>, \<^verbatim>\<open>redData\<close>, \<^verbatim>\<open>greenData\<close>,
  \<^verbatim>\<open>blueData\<close>, \<^verbatim>\<open>measurements\<close>, \<^verbatim>\<open>oxygenLevel\<close>) are those of that render,
  whenever the callback runs. Its writes (\<^verbatim>\<open>setHeartRate\<close>, ...) go to the state of
  the moment it runs, and a functional write (\<^verbatim>\<open>setSignal(prev => [...prev, g])\<close>)
  is computed from that state. So a callback that reads state takes two states:
  \<open>render\<close>, the state of the render that created it, and \<open>st\<close>, the state when
  it runs. The callback given to \<^verbatim>\<open>setInterval\<close> in \<^verbatim>\<open>startMeasurement\<close>, and the
  \<^verbatim>\<open>kalmanFilterHeartRate\<close> and \<^verbatim>\<open>finishMeasurement\<close> it calls, are created by the
  render whose \<^verbatim>\<open>startMeasurement\<close> ran, before the resets of that call take
  effect. Camera, canvas, the writes of the callback that depend on the elapsed
  time (time elapsed, progress, the end of the calibration), speech, history and
  the insights request are outside the model.
\<close>

record Monitor =
  heartRate :: "jsnum option"
  oxygenLevel :: "jsnum option"
  confidence :: jsnum
  measurements :: "jsnum list"
  signal :: "jsnum list"
  processedSignal :: "jsnum list"
  redData :: "jsnum list"
  greenData :: "jsnum list"
  blueData :: "jsnum list"
  isHumanDetected :: bool
  fingerprintDetected :: bool
  isMeasuring :: bool
  calibrating :: bool
  showingResults :: bool

definition MIN_HEARTRATE :: jsnum where
  "MIN_HEARTRATE = Num 40"

definition MAX_HEARTRATE :: jsnum where
  "MAX_HEARTRATE = Num 220"

text \<open>The state of the component when it is mounted.\<close>

definition initialMonitor :: Monitor where
  "initialMonitor =
     \<lparr> heartRate = None, oxygenLevel = None, confidence = Num 0, measurements = [],
       signal = [], processedSignal = [], redData = [], greenData = [], blueData = [],
       isHumanDetected = False, fingerprintDetected = False, isMeasuring = False,
       calibrating = False, showingResults = False \<rparr>"

text \<open>The resets of \<^verbatim>\<open>startMeasurement\<close>, with video and canvas present; they read
  no state. The displayed heart rate, the oxygen level and the confidence are not
  reset.\<close>

definition startMeasurement :: "Monitor \<Rightarrow> Monitor" where
  "startMeasurement st =
     st\<lparr> isMeasuring := True, calibrating := True, showingResults := False,
         measurements := [], signal := [], processedSignal := [],
         redData := [], greenData := [], blueData := [] \<rparr>"

text \<open>The instantaneous rate of the sampling callback, from the peaks:
  \<^verbatim>\<open>Math.round(60 * samplingRate / avgInterval)\<close> with a sampling rate of 30.\<close>

definition calculatedHROf :: "jsnum list \<Rightarrow> jsnum" where
  "calculatedHROf peaks =
     (let intervals = intervalsOf peaks;
          avgInterval = jdiv (jsum intervals) (Num (real (length intervals)));
          samplingRate = Num 30
      in jround (jdiv (jmul (Num 60) samplingRate) avgInterval))"

text \<open>The body of \<^verbatim>\<open>if (signal.length > 10)\<close> in the sampling callback. The signal,
  the prior of the filter (\<^verbatim>\<open>heartRate\<close>), the confidence and the colour histories
  are those of \<open>render\<close>; the measurements are appended to those of \<open>st\<close>.\<close>

definition heartRateUpdate :: "Monitor \<Rightarrow> Monitor \<Rightarrow> Monitor" where
  "heartRateUpdate render st =
     (let processed = processPPG (signal render);
          st1 = st\<lparr> processedSignal := processed \<rparr>;
          peaks = enhancedPeakDetection processed
      in if length peaks \<ge> 2
         then let calculatedHR = calculatedHROf peaks
              in if jge calculatedHR MIN_HEARTRATE \<and> jle calculatedHR MAX_HEARTRATE
                 then let filteredHR =
                            kalmanFilterHeartRate (heartRate render) calculatedHR
                              (confidence render);
                          oxygenEstimate =
                            enhancedOxygenEstimation (redData render) (greenData render)
                              (blueData render);
                          signalQuality = calculateSignalQuality processed
                      in st1\<lparr> measurements := measurements st @ [filteredHR],
                              heartRate := Some filteredHR,
                              oxygenLevel := (case oxygenEstimate of
                                                None \<Rightarrow> oxygenLevel st
                                              | Some spO2 \<Rightarrow> Some spO2),
                              confidence := jmul signalQuality (Num 100),
                              fingerprintDetected := jgt signalQuality (Num (5 / 10)) \<rparr>
                 else st1
         else st1)"

text \<open>The sampling callback from the averaged colours \<open>r\<close>, \<open>g\<close>, \<open>b\<close> of the frame
  to the end of the heart-rate branch. The four histories are extended by
  functional writes, from the state \<open>st\<close>; the test \<^verbatim>\<open>signal.length > 10\<close> reads
  the signal of \<open>render\<close>.\<close>

definition sampleTick :: "Monitor \<Rightarrow> Monitor \<Rightarrow> jsnum \<times> jsnum \<times> jsnum \<Rightarrow> Monitor" where
  "sampleTick render st rgb =
     (case rgb of (r, g, b) \<Rightarrow>
        let isProbablyHuman = verifyHumanFingerprint r g b
        in if isProbablyHuman
           then let st1 = (if length (signal render) > 10 then heartRateUpdate render st else st)
                in st1\<lparr> isHumanDetected := isProbablyHuman,
                        redData := redData st @ [r],
                        greenData := greenData st @ [g],
                        blueData := blueData st @ [b],
                        signal := signal st @ [g] \<rparr>
           else st\<lparr> isHumanDetected := isProbablyHuman \<rparr>)"

text \<open>\<^verbatim>\<open>generateSimulatedResult\<close>, which reads no state, and \<^verbatim>\<open>finishMeasurement\<close>,
  which reads the measurements and the oxygen level of \<open>render\<close>. The values of
  \<^verbatim>\<open>Math.random()\<close> are parameters, in the order of the calls; the product of a
  draw and the sum with the offset are rounded to binary64.\<close>

definition generateSimulatedResult :: "Monitor \<Rightarrow> real \<Rightarrow> real \<Rightarrow> Monitor" where
  "generateSimulatedResult st random1 random2 =
     (let simulatedHR = dadd (Num 65) (jfloor (dmul (Num random1) (Num 20)));
          simulatedO2 = dadd (Num 96) (jfloor (dmul (Num random2) (Num 3)))
      in st\<lparr> heartRate := Some simulatedHR, oxygenLevel := Some simulatedO2,
              measurements := [simulatedHR], showingResults := True \<rparr>)"

definition finishMeasurement :: "Monitor \<Rightarrow> Monitor \<Rightarrow> real \<Rightarrow> real \<Rightarrow> Monitor" where
  "finishMeasurement render st random1 random2 =
     (let st1 = st\<lparr> isMeasuring := False, calibrating := False \<rparr>
      in if length (measurements render) \<ge> 2
         then let recentMeasurements = sliceLast 5 (measurements render);
                  averageHR = jround (jdiv (jsum recentMeasurements)
                                        (Num (real (length recentMeasurements))));
                  noOxygenLevel = (case oxygenLevel render of
                                     None \<Rightarrow> True
                                   | Some level \<Rightarrow> \<not> truthy level)
              in st1\<lparr> heartRate := Some averageHR,
                      oxygenLevel :=
                        (if noOxygenLevel
                         then Some (dadd (jfloor (dmul (Num random1) (Num 3))) (Num 96))
                         else oxygenLevel st),
                      showingResults := True \<rparr>
         else generateSimulatedResult st1 random1 random2)"

text \<open>\<^verbatim>\<open>stopMeasurement\<close>, the saved reading aside.\<close>

definition stopMeasurement :: "Monitor \<Rightarrow> Monitor" where
  "stopMeasurement st = st\<lparr> isMeasuring := False, calibrating := False \<rparr>"

text \<open>
  The component: its state, the render captured by the timer that
  \<^verbatim>\<open>intervalRef.current\<close> names, the renders captured by the timers whose
  identifier was overwritten by a later \<^verbatim>\<open>startMeasurement\<close> (they are never
  cleared), and the states of the earlier renders.
\<close>

record Component =
  current :: Monitor
  timer :: "Monitor option"
  leaked :: "Monitor list"
  past :: "Monitor list"

definition mountedComponent :: Component where
  "mountedComponent = \<lparr> current = initialMonitor, timer = None, leaked = [], past = [] \<rparr>"

text \<open>The events. \<^verbatim>\<open>startMeasurement\<close> of the render \<open>render\<close> runs, with video and
  canvas; the timer callback created by \<open>render\<close> samples a frame;
  \<^verbatim>\<open>stopMeasurement\<close> runs; the timer callback created by \<open>render\<close> calls its
  \<^verbatim>\<open>finishMeasurement\<close>; \<^verbatim>\<open>startMeasurement\<close> runs without video or canvas.\<close>

definition started :: "Monitor \<Rightarrow> Component \<Rightarrow> Component" where
  "started render c =
     \<lparr> current = startMeasurement (current c), timer = Some render,
       leaked = (case timer c of None \<Rightarrow> leaked c | Some old \<Rightarrow> old # leaked c),
       past = current c # past c \<rparr>"

definition sampled :: "Monitor \<Rightarrow> jsnum \<times> jsnum \<times> jsnum \<Rightarrow> Component \<Rightarrow> Component" where
  "sampled render rgb c =
     c\<lparr> current := sampleTick render (current c) rgb, past := current c # past c \<rparr>"

definition stopped :: "Component \<Rightarrow> Component" where
  "stopped c =
     c\<lparr> current := stopMeasurement (current c), timer := None, past := current c # past c \<rparr>"

definition finished :: "Monitor \<Rightarrow> real \<Rightarrow> real \<Rightarrow> Component \<Rightarrow> Component" where
  "finished render random1 random2 c =
     c\<lparr> current := finishMeasurement render (current c) random1 random2, timer := None,
        past := current c # past c \<rparr>"

definition simulated :: "real \<Rightarrow> real \<Rightarrow> Component \<Rightarrow> Component" where
  "simulated random1 random2 c =
     c\<lparr> current := generateSimulatedResult (current c) random1 random2,
        past := current c # past c \<rparr>"

text \<open>A value of \<^verbatim>\<open>Math.random()\<close> is a binary64 number, at least 0 and less than 1.\<close>

definition draw :: "real \<Rightarrow> bool" where
  "draw u = (isDouble u \<and> 0 \<le> u \<and> u < 1)"

text \<open>
  The states of the component. It is mounted; a click runs \<^verbatim>\<open>startMeasurement\<close>
  of the latest render or, through \<^verbatim>\<open>initializeHeartRateMonitor\<close>, which waits
  for the camera, of an earlier one; a running timer samples a frame or finishes
  its measurement; a click stops the measurement, which clears the timer that
  \<^verbatim>\<open>intervalRef.current\<close> names, as finishing does. Time is not modelled: a
  timer may finish at any of its ticks. The relation has every behaviour of the
  component, and may have more.
\<close>

inductive reachable :: "Component \<Rightarrow> bool" where
  mount: "reachable mountedComponent"
| start: "reachable c \<Longrightarrow> render \<in> set (current c # past c) \<Longrightarrow> reachable (started render c)"
| sample: "reachable c \<Longrightarrow> timer c = Some render \<or> render \<in> set (leaked c)
     \<Longrightarrow> reachable (sampled render rgb c)"
| stop: "reachable c \<Longrightarrow> reachable (stopped c)"
| finish: "reachable c \<Longrightarrow> timer c = Some render \<or> render \<in> set (leaked c)
     \<Longrightarrow> draw random1 \<Longrightarrow> draw random2 \<Longrightarrow> reachable (finished render random1 random2 c)"
| simulate: "reachable c \<Longrightarrow> draw random1 \<Longrightarrow> draw random2
     \<Longrightarrow> reachable (simulated random1 random2 c)"

section \<open>Notions used in the statements about a session\<close>

text \<open>A displayed heart rate is plausible when it is absent or within the
  physiological bounds; a confidence is a percentage.\<close>

definition plausibleRate :: "jsnum option \<Rightarrow> bool" where
  "plausibleRate h = (h = None \<or> (\<exists>r. h = Some (Num r) \<and> 40 \<le> r \<and> r \<le> 220))"

definition percentage :: "jsnum \<Rightarrow> bool" where
  "percentage c = (\<exists>q. c = Num q \<and> 0 \<le> q \<and> q \<le> 100)"

definition acceptedRate :: "jsnum \<Rightarrow> bool" where
  "acceptedRate m = (\<exists>k :: int. m = Num (of_int k) \<and> 40 \<le> k \<and> k \<le> 220)"

text \<open>What holds of the state in every reachable component, and of every render a
  callback of it has captured or can capture.\<close>

definition sound :: "Monitor \<Rightarrow> bool" where
  "sound st = (plausibleRate (heartRate st) \<and> percentage (confidence st) \<and>
     list_all acceptedRate (measurements st))"

definition soundComponent :: "Component \<Rightarrow> bool" where
  "soundComponent c = (sound (current c) \<and> list_all sound (past c) \<and>
     list_all sound (leaked c) \<and> (case timer c of None \<Rightarrow> True | Some render \<Rightarrow> sound render))"

text \<open>Fifteen green samples with pulses at the indices 3 and 12, nine samples
  apart (200 beats per minute), and fifteen with pulses at the indices 3 and 11,
  eight samples apart (225 beats per minute).\<close>

definition pulseSignal :: "jsnum list" where
  "pulseSignal = map Num [20, 20, 20, 120, 20, 20, 20, 20, 20, 20, 20, 20, 120, 20, 20]"

definition fastSignal :: "jsnum list" where
  "fastSignal = map Num [20, 20, 20, 120, 20, 20, 20, 20, 20, 20, 20, 120, 20, 20, 20]"

text \<open>
  Executions of the component. A click on the measure button runs
  \<^verbatim>\<open>startMeasurement\<close> of the latest render; the timer that \<^verbatim>\<open>intervalRef.current\<close>
  names samples a frame, or finishes. In a first session the camera sees a live
  finger whose green values are those of a list, and the session is cancelled;
  a second session is started and samples \<open>n\<close> live frames; a third session is
  started after the second is cancelled.
\<close>

definition press :: "Component \<Rightarrow> Component" where
  "press c = started (current c) c"

definition frame :: "jsnum \<times> jsnum \<times> jsnum \<Rightarrow> Component \<Rightarrow> Component" where
  "frame rgb c = (case timer c of None \<Rightarrow> c | Some render \<Rightarrow> sampled render rgb c)"

definition timeUp :: "real \<Rightarrow> real \<Rightarrow> Component \<Rightarrow> Component" where
  "timeUp random1 random2 c =
     (case timer c of None \<Rightarrow> c | Some render \<Rightarrow> finished render random1 random2 c)"

definition liveFrame :: "jsnum \<Rightarrow> jsnum \<times> jsnum \<times> jsnum" where
  "liveFrame g = (Num 200, g, Num 10)"

definition firstSession :: "jsnum list \<Rightarrow> Component" where
  "firstSession greens =
     stopped (foldl (\<lambda>c g. frame (liveFrame g) c) (press mountedComponent) greens)"

definition secondSession :: "jsnum list \<Rightarrow> nat \<Rightarrow> Component" where
  "secondSession greens n = (frame (liveFrame (Num 20)) ^^ n) (press (firstSession greens))"

definition thirdSession :: "jsnum list \<Rightarrow> nat \<Rightarrow> Component" where
  "thirdSession greens n = press (stopped (secondSession greens n))"

section \<open>Properties\<close>



subsection \<open>Binary64 rounding\<close>

text \<open>Rounding keeps a number between two integers that enclose it, is monotone,
  and keeps the binary64 numbers as they are.\<close>

lemma roundTiesEven_lower: "of_int n \<le> t \<Longrightarrow> n \<le> roundTiesEven t"
  unfolding roundTiesEven_def Let_def by (auto simp: le_floor_iff) (linarith+)?

lemma roundTiesEven_upper: "t \<le> of_int n \<Longrightarrow> roundTiesEven t \<le> n"
proof -
  assume t: "t \<le> of_int n"
  show ?thesis
  proof (cases "t = of_int n")
    case True
    then show ?thesis by (simp add: roundTiesEven_def)
  next
    case False
    then have "t < of_int n" using t by simp
    then have "\<lfloor>t\<rfloor> < n" by (simp add: floor_less_iff)
    then show ?thesis unfolding roundTiesEven_def Let_def by auto
  qed
qed

lemma exponentOf_small:
  assumes "x \<noteq> 0" "\<bar>x\<bar> < 2 ^ 53"
  shows "exponentOf x \<le> 52"
proof -
  have "\<bar>x\<bar> < 2 powr 53" using assms(2) by simp
  then have "log 2 \<bar>x\<bar> < 53" using assms(1) by (simp add: log_less_iff)
  then have "\<lfloor>log 2 \<bar>x\<bar>\<rfloor> \<le> 52" by (simp add: floor_le_iff)
  then show ?thesis by (simp add: exponentOf_def)
qed

lemma toDouble_bracket:
  assumes "of_int a \<le> x" "x \<le> of_int b" "\<bar>x\<bar> < 2 ^ 53" "\<bar>a\<bar> \<le> 2 ^ 53" "\<bar>b\<bar> \<le> 2 ^ 53"
  shows "\<exists>y. toDouble x = Num y \<and> of_int a \<le> y \<and> y \<le> of_int b"
proof (cases "x = 0")
  case True
  then show ?thesis using assms(1,2) by (simp add: toDouble_def)
next
  case False
  define k where "k = nat (52 - exponentOf x)"
  have "exponentOf x \<le> 52" using False assms(3) by (rule exponentOf_small)
  then have e: "exponentOf x - 52 = - int k" by (simp add: k_def)
  define s :: real where "s = 2 ^ k"
  have s: "0 < s" by (simp add: s_def)
  have ulp: "2 powr of_int (exponentOf x - 52) = 1 / s"
    unfolding e s_def by (simp add: powr_minus powr_realpow inverse_eq_divide)
  define y where "y = of_int (roundTiesEven (x * s)) / s"
  have "of_int (a * 2 ^ k) \<le> x * s" using assms(1) s by (simp add: s_def)
  then have "a * 2 ^ k \<le> roundTiesEven (x * s)" by (rule roundTiesEven_lower)
  then have "of_int (a * 2 ^ k) \<le> (of_int (roundTiesEven (x * s)) :: real)"
    by (simp only: of_int_le_iff)
  then have lo: "of_int a \<le> y" using s by (simp add: y_def s_def pos_le_divide_eq)
  have "x * s \<le> of_int (b * 2 ^ k)" using assms(2) s by (simp add: s_def)
  then have "roundTiesEven (x * s) \<le> b * 2 ^ k" by (rule roundTiesEven_upper)
  then have "(of_int (roundTiesEven (x * s)) :: real) \<le> of_int (b * 2 ^ k)"
    by (simp only: of_int_le_iff)
  then have hi: "y \<le> of_int b" using s by (simp add: y_def s_def pos_divide_le_eq)
  have "\<bar>y\<bar> \<le> 2 ^ 53"
  proof -
    have "(of_int a :: real) \<ge> - (2 ^ 53)" "(of_int b :: real) \<le> 2 ^ 53"
      using assms(4,5) by (simp_all add: abs_le_iff)
    then show ?thesis using lo hi by (simp add: abs_le_iff)
  qed
  also have "\<dots> < (2 ^ 1024 :: real)" by simp
  finally have fin: "\<bar>y\<bar> < 2 ^ 1024" .
  have "toDouble x = Num (of_int (roundTiesEven (x / (1 / s))) * (1 / s))"
    using False fin unfolding toDouble_def Let_def ulp y_def by simp
  then have "toDouble x = Num y" by (simp add: y_def)
  then show ?thesis using lo hi by blast
qed

lemma roundTiesEven_of_int: "roundTiesEven (of_int n) = n"
  by (simp add: roundTiesEven_def)

lemma roundTiesEven_near:
  "of_int n \<le> t \<Longrightarrow> t < of_int n + 1 / 2 \<Longrightarrow> roundTiesEven t = n"
proof -
  assume a: "of_int n \<le> t" "t < of_int n + 1 / 2"
  then have f: "\<lfloor>t\<rfloor> = n" by (simp add: floor_eq_iff)
  show ?thesis unfolding roundTiesEven_def Let_def f using a by simp
qed

lemma roundTiesEven_tie_up:
  "t = of_int n - 1 / 2 \<Longrightarrow> even n \<Longrightarrow> roundTiesEven t = n"
proof -
  assume a: "t = of_int n - 1 / 2" "even n"
  then have f: "\<lfloor>t\<rfloor> = n - 1" by (simp add: floor_eq_iff)
  show ?thesis unfolding roundTiesEven_def Let_def f using a by simp
qed

lemma powr_neg_numeral_two: "(2::real) powr (- numeral k) = 1 / 2 ^ numeral k"
  by (simp add: powr_minus inverse_eq_divide)

lemma exponentOf_eq:
  assumes "p = 2 powr of_int e" "p \<le> \<bar>x\<bar>" "\<bar>x\<bar> < 2 * p" "- 1022 \<le> e"
  shows "exponentOf x = e"
proof -
  have "0 < \<bar>x\<bar>" using assms(1,2) by (smt (verit) powr_gt_zero)
  moreover have "2 powr of_int (e + 1) = 2 * p"
    unfolding assms(1) by (simp add: powr_add)
  ultimately have "\<lfloor>log 2 \<bar>x\<bar>\<rfloor> = e"
    using assms(1,2,3) floor_log_eq_powr_iff[of "\<bar>x\<bar>" 2 e] by simp
  then show ?thesis using assms(4) by (simp add: exponentOf_def)
qed

lemma toDouble_eval:
  assumes "exponentOf x = e" "u = 2 powr of_int (e - 52)" "roundTiesEven (x / u) = n"
    "\<bar>of_int n * u\<bar> < 2 ^ 1024" "x \<noteq> 0"
  shows "toDouble x = Num (of_int n * u)"
  using assms unfolding toDouble_def Let_def by simp

lemma toDouble_exact:
  assumes "exponentOf x = e" "u = 2 powr of_int (e - 52)" "x = of_int n * u"
    "\<bar>x\<bar> < 2 ^ 1024" "x \<noteq> 0"
  shows "toDouble x = Num x"
proof -
  have u: "0 < u" using assms(2) by simp
  have "x / u = of_int n" using assms(3) u by simp
  then have "roundTiesEven (x / u) = n" by (simp add: roundTiesEven_of_int)
  from toDouble_eval[OF assms(1,2) this] assms(3,4,5) show ?thesis by simp
qed

lemma toDouble_int: "\<bar>n\<bar> < 2 ^ 53 \<Longrightarrow> toDouble (of_int n) = Num (of_int n)"
proof -
  assume n: "\<bar>n\<bar> < 2 ^ 53"
  then have "\<bar>of_int n :: real\<bar> < 2 ^ 53"
    by (metis of_int_abs of_int_less_iff of_int_numeral of_int_power)
  from toDouble_bracket[of n "of_int n" n, OF _ _ this] n show ?thesis by auto
qed

lemma toDouble_1: "toDouble 1 = Num 1"
  using toDouble_int[of 1] by simp

lemma toDouble_0: "toDouble 0 = Num 0"
  by (simp add: toDouble_def)

lemma toDouble_form:
  assumes "toDouble x = Num y" "x \<noteq> 0"
  shows "y = of_int (roundTiesEven (x / 2 powr of_int (exponentOf x - 52))) *
             2 powr of_int (exponentOf x - 52) \<and> \<bar>y\<bar> < 2 ^ 1024"
  using assms unfolding toDouble_def Let_def infOf_def by (simp split: if_splits)

lemma roundTiesEven_mono: "s \<le> t \<Longrightarrow> roundTiesEven s \<le> roundTiesEven t"
proof -
  assume st: "s \<le> t"
  have "\<lfloor>s\<rfloor> \<le> \<lfloor>t\<rfloor>" using st by (rule floor_mono)
  then consider "\<lfloor>s\<rfloor> = \<lfloor>t\<rfloor>" | "\<lfloor>s\<rfloor> + 1 \<le> \<lfloor>t\<rfloor>" by linarith
  then show ?thesis
  proof cases
    case 1
    then show ?thesis using st unfolding roundTiesEven_def Let_def by auto
  next
    case 2
    have "s \<le> of_int (\<lfloor>s\<rfloor> + 1)" by linarith
    then have "roundTiesEven s \<le> \<lfloor>s\<rfloor> + 1" by (rule roundTiesEven_upper)
    moreover have "of_int \<lfloor>t\<rfloor> \<le> t" by simp
    then have "\<lfloor>t\<rfloor> \<le> roundTiesEven t" by (rule roundTiesEven_lower)
    ultimately show ?thesis using 2 by linarith
  qed
qed

lemma exponentOf_ge: "- 1022 \<le> exponentOf x"
  by (simp add: exponentOf_def)

lemma exponentOf_upper: "x \<noteq> 0 \<Longrightarrow> \<bar>x\<bar> < 2 powr of_int (exponentOf x + 1)"
proof -
  assume x: "x \<noteq> 0"
  have "\<lfloor>log 2 \<bar>x\<bar>\<rfloor> \<le> exponentOf x" by (simp add: exponentOf_def)
  then have "log 2 \<bar>x\<bar> < of_int (exponentOf x + 1)" by linarith
  then show ?thesis using x by (simp add: less_powr_iff)
qed

lemma exponentOf_lower:
  "x \<noteq> 0 \<Longrightarrow> - 1022 < exponentOf x \<Longrightarrow> 2 powr of_int (exponentOf x) \<le> \<bar>x\<bar>"
proof -
  assume x: "x \<noteq> 0" and e: "- 1022 < exponentOf x"
  then have "exponentOf x = \<lfloor>log 2 \<bar>x\<bar>\<rfloor>" by (simp add: exponentOf_def max_def split: if_splits)
  then have "of_int (exponentOf x) \<le> log 2 \<bar>x\<bar>" by simp
  then show ?thesis using x by (simp add: powr_le_iff)
qed

lemma exponentOf_mono: "0 < x \<Longrightarrow> x \<le> y \<Longrightarrow> exponentOf x \<le> exponentOf y"
proof -
  assume a: "0 < x" "x \<le> y"
  then have "log 2 \<bar>x\<bar> \<le> log 2 \<bar>y\<bar>" by simp
  then have "\<lfloor>log 2 \<bar>x\<bar>\<rfloor> \<le> \<lfloor>log 2 \<bar>y\<bar>\<rfloor>" by (rule floor_mono)
  then show ?thesis by (simp add: exponentOf_def)
qed

lemma ulp_scale_53: "(2::real) powr of_int (e + 1) = 2 ^ 53 * 2 powr of_int (e - 52)"
proof -
  have "(2::real) ^ 53 = 2 powr 53" by simp
  then have "(2::real) ^ 53 * 2 powr of_int (e - 52) = 2 powr (53 + of_int (e - 52))"
    by (simp only: powr_add)
  then show ?thesis by (simp add: add.commute)
qed

lemma ulp_scale_52: "(2::real) powr of_int e = 2 ^ 52 * 2 powr of_int (e - 52)"
proof -
  have "(2::real) ^ 52 = 2 powr 52" by simp
  then have "(2::real) ^ 52 * 2 powr of_int (e - 52) = 2 powr (52 + of_int (e - 52))"
    by (simp only: powr_add)
  then show ?thesis by (simp add: add.commute)
qed

lemma toDouble_mono_pos:
  assumes "0 < x" "x \<le> y" "toDouble y = Num b"
  shows "\<exists>a. toDouble x = Num a \<and> 0 \<le> a \<and> a \<le> b"
proof -
  define ex where "ex = exponentOf x"
  define ey where "ey = exponentOf y"
  define ux :: real where "ux = 2 powr of_int (ex - 52)"
  define uy :: real where "uy = 2 powr of_int (ey - 52)"
  define rx where "rx = roundTiesEven (x / ux)"
  define ry where "ry = roundTiesEven (y / uy)"
  have y: "0 < y" using assms(1,2) by simp
  have ux: "0 < ux" and uy: "0 < uy" by (simp_all add: ux_def uy_def)
  have "y \<noteq> 0" using y by simp
  from toDouble_form[OF assms(3) this]
  have b: "b = of_int ry * uy" "\<bar>b\<bar> < 2 ^ 1024"
    unfolding ry_def uy_def ey_def by blast+
  have "of_int 0 \<le> x / ux" using assms(1) ux by simp
  then have rx0: "0 \<le> rx" unfolding rx_def by (rule roundTiesEven_lower)
  have le: "ex \<le> ey" unfolding ex_def ey_def using assms(1,2) by (rule exponentOf_mono)
  have ab: "of_int rx * ux \<le> b"
  proof (cases "ex = ey")
    case True
    then have u: "ux = uy" by (simp add: ux_def uy_def)
    have "x / ux \<le> y / uy" unfolding u using assms(2) uy by (simp add: divide_right_mono)
    then have "rx \<le> ry" unfolding rx_def ry_def by (rule roundTiesEven_mono)
    then have "(of_int rx :: real) \<le> of_int ry" by simp
    then have "of_int rx * ux \<le> of_int ry * ux" using ux by (simp add: mult_right_mono)
    then show ?thesis by (simp add: b(1) u)
  next
    case False
    then have lt: "ex + 1 \<le> ey" using le by simp
    have eq53: "2 powr of_int (ex + 1) = 2 ^ 53 * ux"
      unfolding ux_def by (rule ulp_scale_53)
    have eq52: "2 powr of_int ey = 2 ^ 52 * uy"
      unfolding uy_def by (rule ulp_scale_52)
    have "\<bar>x\<bar> < 2 powr of_int (ex + 1)"
      unfolding ex_def using assms(1) by (intro exponentOf_upper) simp
    then have "\<bar>x\<bar> < 2 ^ 53 * ux" unfolding eq53 .
    then have "x \<le> 2 ^ 53 * ux" by simp
    then have "x / ux \<le> of_int (2 ^ 53)" using ux by (simp add: pos_divide_le_eq)
    then have "rx \<le> 2 ^ 53" unfolding rx_def by (rule roundTiesEven_upper)
    then have "(of_int rx :: real) \<le> of_int (2 ^ 53)" by (simp only: of_int_le_iff)
    then have "of_int rx * ux \<le> of_int (2 ^ 53) * ux" using ux by (simp only: mult_right_mono)
    then have "of_int rx * ux \<le> 2 ^ 53 * ux" by simp
    then have one: "of_int rx * ux \<le> 2 powr of_int (ex + 1)" unfolding eq53 .
    have "- 1022 < ey" using lt exponentOf_ge[of x] by (simp add: ex_def)
    then have "2 powr of_int ey \<le> \<bar>y\<bar>"
      unfolding ey_def using y by (intro exponentOf_lower) simp_all
    then have "2 ^ 52 * uy \<le> \<bar>y\<bar>" unfolding eq52 .
    then have "2 ^ 52 * uy \<le> y" using y by simp
    then have "of_int (2 ^ 52) \<le> y / uy" using uy by (simp add: pos_le_divide_eq)
    then have "2 ^ 52 \<le> ry" unfolding ry_def by (rule roundTiesEven_lower)
    then have "(of_int (2 ^ 52) :: real) \<le> of_int ry" by (simp only: of_int_le_iff)
    then have "of_int (2 ^ 52) * uy \<le> of_int ry * uy" using uy by (simp only: mult_right_mono)
    then have "2 ^ 52 * uy \<le> b" by (simp add: b(1))
    then have two: "2 powr of_int ey \<le> b" unfolding eq52 .
    have "(2::real) powr of_int (ex + 1) \<le> 2 powr of_int ey"
      using lt by (intro powr_mono) simp_all
    then show ?thesis using one two by linarith
  qed
  have nn: "0 \<le> of_int rx * ux" using rx0 ux by simp
  then have "\<bar>of_int rx * ux\<bar> < 2 ^ 1024" using ab b(2) by linarith
  then have "toDouble x = Num (of_int rx * ux)"
    using assms(1) unfolding toDouble_def Let_def rx_def ux_def ex_def by simp
  then show ?thesis using nn ab by blast
qed

lemma toDouble_mono_nonneg:
  assumes "0 \<le> x" "x \<le> y" "toDouble y = Num b"
  shows "\<exists>a. toDouble x = Num a \<and> 0 \<le> a \<and> a \<le> b"
proof (cases "x = 0")
  case True
  show ?thesis
  proof (cases "y = 0")
    case True
    then show ?thesis using assms \<open>x = 0\<close> by (simp add: toDouble_0)
  next
    case False
    then have "0 < y" using assms(1,2) by simp
    from toDouble_mono_pos[OF this order_refl assms(3)] have "0 \<le> b" using assms(3) by auto
    then show ?thesis using \<open>x = 0\<close> by (simp add: toDouble_0)
  qed
next
  case False
  then have "0 < x" using assms(1) by simp
  then show ?thesis using assms(2,3) by (rule toDouble_mono_pos)
qed




lemma toDouble_numeral:
  "(numeral k :: int) < 2 ^ 53 \<Longrightarrow> toDouble (numeral k) = Num (numeral k)"
  using toDouble_int[of "numeral k"] by simp

lemma toDouble_neg_numeral:
  "(numeral k :: int) < 2 ^ 53 \<Longrightarrow> toDouble (- numeral k) = Num (- numeral k)"
  using toDouble_int[of "- numeral k"] by simp


subsection \<open>The refinement of a peak\<close>

lemma dadd_index_offset:
  assumes "0 < k" "k < 2 ^ 53 - 1" "jlt (jabs offset) (Num 1)"
  shows "\<exists>r. dadd (Num (of_int k)) offset = Num r \<and> \<bar>r - of_int k\<bar> \<le> 1"
proof -
  from assms(3) obtain d where d: "offset = Num d" "\<bar>d\<bar> < 1"
    by (cases offset) auto
  have "(of_int k :: real) < of_int (2 ^ 53 - 1)"
    using assms(2) by (simp only: of_int_less_iff)
  then have k: "(of_int k :: real) < 2 ^ 53 - 1" "(0 :: real) < of_int k"
    using assms(1) by simp_all
  have "\<exists>y. toDouble (of_int k + d) = Num y \<and> of_int (k - 1) \<le> y \<and> y \<le> of_int (k + 1)"
    using d(2) k assms(1,2) by (intro toDouble_bracket) (simp_all add: abs_less_iff abs_le_iff)
  then show ?thesis using d(1) by (auto simp: dadd_def abs_le_iff)
qed

lemma rnd_jdiv_zero_not_small: "\<not> jlt (jabs (rnd (jdiv x (Num 0)))) (Num 1)"
  by (cases x) (auto simp: infOf_def)

text \<open>The operations of the refinement on the signal 0, 1, \<open>1 / 4 - 1 / 2 ^ 54\<close>, 0 at
  index 2.\<close>

lemma step_b: "toDouble (2 * (1 / 4 - 1 / 2 ^ 54)) = Num (1 / 2 - 1 / 2 ^ 53)"
proof -
  have e: "exponentOf (1 / 2 - 1 / 2 ^ 53) = - 2"
    by (rule exponentOf_eq[where p = "1 / 4"]) (simp_all add: powr_neg_numeral_two)
  have "toDouble (1 / 2 - 1 / 2 ^ 53) = Num (1 / 2 - 1 / 2 ^ 53)"
    by (rule toDouble_exact[OF e, where u = "1 / 2 ^ 54" and n = "2 ^ 53 - 2"]) (simp_all add: powr_neg_numeral_two)
  then show ?thesis by simp
qed

lemma step_c: "toDouble (1 - (1 / 2 - 1 / 2 ^ 53)) = Num (1 / 2 + 1 / 2 ^ 53)"
proof -
  have e: "exponentOf (1 / 2 + 1 / 2 ^ 53) = - 1"
    by (rule exponentOf_eq[where p = "1 / 2"]) (simp_all add: powr_neg_numeral_two)
  have "toDouble (1 / 2 + 1 / 2 ^ 53) = Num (1 / 2 + 1 / 2 ^ 53)"
    by (rule toDouble_exact[OF e, where u = "1 / 2 ^ 53" and n = "2 ^ 52 + 1"]) (simp_all add: powr_neg_numeral_two)
  then show ?thesis by simp
qed

lemma step_e: "toDouble (2 * (1 / 2 + 1 / 2 ^ 53)) = Num (1 + 1 / 2 ^ 52)"
proof -
  have e: "exponentOf (1 + 1 / 2 ^ 52) = 0"
    by (rule exponentOf_eq[where p = 1]) (simp_all add: powr_neg_numeral_two)
  have "toDouble (1 + 1 / 2 ^ 52) = Num (1 + 1 / 2 ^ 52)"
    by (rule toDouble_exact[OF e, where u = "1 / 2 ^ 52" and n = "2 ^ 52 + 1"]) (simp_all add: powr_neg_numeral_two)
  then show ?thesis by simp
qed

lemma step_offset: "toDouble (1 / (1 + 1 / 2 ^ 52)) = Num (1 - 1 / 2 ^ 52)"
proof -
  have e: "exponentOf (1 / (1 + 1 / 2 ^ 52)) = - 1"
    by (rule exponentOf_eq[where p = "1 / 2"]) (simp_all add: powr_neg_numeral_two)
  have r: "roundTiesEven (1 / (1 + 1 / 2 ^ 52) / (1 / 2 ^ 53)) = 2 ^ 53 - 2"
    by (rule roundTiesEven_near) (simp_all add: powr_neg_numeral_two)
  have "toDouble (1 / (1 + 1 / 2 ^ 52)) = Num (of_int (2 ^ 53 - 2) * (1 / 2 ^ 53))"
    by (rule toDouble_eval[OF e _ r]) (simp_all add: powr_neg_numeral_two)
  then show ?thesis by simp
qed

lemma step_sum: "toDouble (2 + (1 - 1 / 2 ^ 52)) = Num 3"
proof -
  have e: "exponentOf (2 + (1 - 1 / 2 ^ 52)) = 1"
    by (rule exponentOf_eq[where p = 2]) (simp_all add: powr_neg_numeral_two)
  have r: "roundTiesEven ((2 + (1 - 1 / 2 ^ 52)) / (1 / 2 ^ 51)) = 3 * 2 ^ 51"
    by (rule roundTiesEven_tie_up) (simp_all add: powr_neg_numeral_two)
  have "toDouble (2 + (1 - 1 / 2 ^ 52)) = Num (of_int (3 * 2 ^ 51) * (1 / 2 ^ 51))"
    by (rule toDouble_eval[OF e _ r]) (simp_all add: powr_neg_numeral_two)
  then show ?thesis by simp
qed

text \<open>
  C10 (as amended). For every signal of fewer than \<open>2 ^ 32\<close> samples (an array of
  JavaScript has no more) and every integer index, peak-location refinement in
  binary64 arithmetic returns a finite number at most 1 away from the index; it
  returns the index itself at index 0 or below, at the last position or beyond,
  and when the denominator \<open>y1 - 2 * y2 + y3\<close> of the parabola, as computed, is
  zero.
\<close>

theorem refinePeakLocationDouble_total_bounded:
  assumes "length data < 2 ^ 32"
  shows "(\<exists>r. refinePeakLocationDouble data k = Num r \<and> \<bar>r - of_int k\<bar> \<le> 1) \<and>
   (k \<le> 0 \<or> int (length data) - 1 \<le> k \<longrightarrow> refinePeakLocationDouble data k = Num (of_int k)) \<and>
   (dadd (dsub (data ! nat (k - 1)) (dmul (Num 2) (data ! nat k))) (data ! nat (k + 1)) = Num 0
      \<longrightarrow> refinePeakLocationDouble data k = Num (of_int k))"
proof (intro conjI impI)
  show "\<exists>r. refinePeakLocationDouble data k = Num r \<and> \<bar>r - of_int k\<bar> \<le> 1"
  proof (cases "k \<le> 0 \<or> int (length data) - 1 \<le> k")
    case True
    then show ?thesis by (auto simp: refinePeakLocationDouble_def)
  next
    case False
    then have k: "0 < k" "k < 2 ^ 53 - 1" using assms by auto
    show ?thesis
      using False dadd_index_offset[OF k]
      by (auto simp: refinePeakLocationDouble_def Let_def)
  qed
next
  assume "k \<le> 0 \<or> int (length data) - 1 \<le> k"
  then show "refinePeakLocationDouble data k = Num (of_int k)"
    by (auto simp: refinePeakLocationDouble_def)
next
  assume "dadd (dsub (data ! nat (k - 1)) (dmul (Num 2) (data ! nat k))) (data ! nat (k + 1)) = Num 0"
  then show "refinePeakLocationDouble data k = Num (of_int k)"
    using rnd_jdiv_zero_not_small
    by (simp add: refinePeakLocationDouble_def Let_def dmul_def ddiv_def toDouble_0)
qed

theorem refinePeakLocationDouble_total_bounded_witness:
  "length [Num 1, Num 1, Num 1] < 2 ^ 32 \<and>
   (\<exists>r. refinePeakLocationDouble [Num 1, Num 1, Num 1] 1 = Num r \<and> \<bar>r - of_int 1\<bar> \<le> 1) \<and>
   refinePeakLocationDouble [Num 1, Num 1, Num 1] 0 = Num 0 \<and>
   refinePeakLocationDouble [Num 1, Num 1, Num 1] 2 = Num 2 \<and>
   dadd (dsub (Num 1) (dmul (Num 2) (Num 1))) (Num 1) = Num 0 \<and>
   refinePeakLocationDouble [Num 1, Num 1, Num 1] 1 = Num 1"
proof -
  have two: "toDouble 2 = Num 2" using toDouble_int[of 2] by simp
  have m1: "toDouble (- 1) = Num (- 1)" using toDouble_int[of "- 1"] by simp
  have z: "dadd (dsub (Num 1) (dmul (Num 2) (Num 1))) (Num 1) = Num 0"
    by (simp add: dadd_def dsub_def dmul_def jsub_def two m1 toDouble_0)
  have len: "length [Num 1, Num 1, Num 1] < 2 ^ 32" by simp
  from refinePeakLocationDouble_total_bounded[OF len, of 1] z
  have a: "(\<exists>r. refinePeakLocationDouble [Num 1, Num 1, Num 1] 1 = Num r \<and> \<bar>r - of_int 1\<bar> \<le> 1)"
    and b: "refinePeakLocationDouble [Num 1, Num 1, Num 1] 1 = Num 1" by simp_all
  from refinePeakLocationDouble_total_bounded[OF len, of 0]
  have c: "refinePeakLocationDouble [Num 1, Num 1, Num 1] 0 = Num 0" by simp
  from refinePeakLocationDouble_total_bounded[OF len, of 2]
  have d: "refinePeakLocationDouble [Num 1, Num 1, Num 1] 2 = Num 2" by simp
  from len a b c d z show ?thesis by blast
qed

text \<open>
  The claim as stated, with a result strictly less than 1 away from the index,
  fails on the signal 0, 1, \<open>1 / 4 - 1 / 2 ^ 54\<close>, 0 at index 2: the computed
  offset is \<open>1 - 1 / 2 ^ 52\<close>, which passes the guard, and the sum of the index
  and the offset lies halfway between the binary64 numbers \<open>3 - 1 / 2 ^ 51\<close> and
  3, and is rounded to 3, the next index.
\<close>

theorem refinePeakLocationDouble_reaches_next_index:
  "isDouble (1 / 4 - 1 / 2 ^ 54) \<and>
   refinePeakLocationDouble [Num 0, Num 1, Num (1 / 4 - 1 / 2 ^ 54), Num 0] 2 = Num 3"
proof -
  have ex: "exponentOf (1 / 4 - 1 / 2 ^ 54) = - 3"
    by (rule exponentOf_eq[where p = "1 / 8"]) (simp_all add: powr_neg_numeral_two)
  have "toDouble (1 / 4 - 1 / 2 ^ 54) = Num (1 / 4 - 1 / 2 ^ 54)"
    by (rule toDouble_exact[OF ex, where u = "1 / 2 ^ 55" and n = "2 ^ 53 - 2"])
      (simp_all add: powr_neg_numeral_two)
  then have input: "isDouble (1 / 4 - 1 / 2 ^ 54)" by (simp add: isDouble_def)
  have a: "dsub (Num 1) (Num 0) = Num 1" by (simp add: dsub_def jsub_def toDouble_1)
  have b: "dmul (Num 2) (Num (1 / 4 - 1 / 2 ^ 54)) = Num (1 / 2 - 1 / 2 ^ 53)"
    using step_b by (simp add: dmul_def)
  have c: "dsub (Num 1) (Num (1 / 2 - 1 / 2 ^ 53)) = Num (1 / 2 + 1 / 2 ^ 53)"
    using step_c by (simp add: dsub_def jsub_def)
  have d: "dadd (Num (1 / 2 + 1 / 2 ^ 53)) (Num 0) = Num (1 / 2 + 1 / 2 ^ 53)"
    using step_c by (simp add: dadd_def)
  have e: "dmul (Num 2) (Num (1 / 2 + 1 / 2 ^ 53)) = Num (1 + 1 / 2 ^ 52)"
    using step_e by (simp add: dmul_def)
  have f: "ddiv (Num 1) (Num (1 + 1 / 2 ^ 52)) = Num (1 - 1 / 2 ^ 52)"
    using step_offset by (simp add: ddiv_def)
  have g: "dadd (Num 2) (Num (1 - 1 / 2 ^ 52)) = Num 3"
    using step_sum by (simp add: dadd_def)
  have "refinePeakLocationDouble [Num 0, Num 1, Num (1 / 4 - 1 / 2 ^ 54), Num 0] 2 = Num 3"
    using a b c d e f g by (simp add: refinePeakLocationDouble_def Let_def)
  with input show ?thesis by blast
qed

lemma foldl_jmin2_Num: "foldl jmin2 (Num a) (map Num xs) = Num (Min (insert a (set xs)))"
proof (induction xs arbitrary: a)
  case Nil
  show ?case by simp
next
  case (Cons x xs)
  have "jmin2 (Num a) (Num x) = Num (min a x)"
    by (simp add: jmin2_def min_def)
  moreover have "Min (insert (min a x) (set xs)) = Min (insert a (insert x (set xs)))"
    by (cases "set xs = {}") (simp_all add: min.assoc)
  ultimately show ?case using Cons.IH [of "min a x"] by simp
qed

lemma foldl_jmax2_Num: "foldl jmax2 (Num a) (map Num xs) = Num (Max (insert a (set xs)))"
proof (induction xs arbitrary: a)
  case Nil
  show ?case by simp
next
  case (Cons x xs)
  have "jmax2 (Num a) (Num x) = Num (max a x)"
    by (simp add: jmax2_def max_def)
  moreover have "Max (insert (max a x) (set xs)) = Max (insert a (insert x (set xs)))"
    by (cases "set xs = {}") (simp_all add: max.assoc)
  ultimately show ?case using Cons.IH [of "max a x"] by simp
qed

lemma mathMin_Num: "xs \<noteq> [] \<Longrightarrow> mathMin (map Num xs) = Num (Min (set xs))"
  by (cases xs) (simp_all add: mathMin_def jmin2_def foldl_jmin2_Num)

lemma mathMax_Num: "xs \<noteq> [] \<Longrightarrow> mathMax (map Num xs) = Num (Max (set xs))"
  by (cases xs) (simp_all add: mathMax_def jmax2_def foldl_jmax2_Num)

subsection \<open>The normalisation\<close>











subsection \<open>The rate filter\<close>

lemma gainAt_bounds:
  assumes "0 \<le> c" "c \<le> 100"
  shows "101 / 201 \<le> gainAt c" "gainAt c \<le> 1"
proof -
  have pos: "0 < 201 - c" using assms by simp
  have "101 / 201 * (201 - c) \<le> 101" using assms by simp
  then show "101 / 201 \<le> gainAt c"
    unfolding gainAt_def using pos by (simp add: pos_le_divide_eq)
  show "gainAt c \<le> 1"
    unfolding gainAt_def using assms pos by (simp add: pos_divide_le_eq)
qed

lemma kalmanGainOf_initial:
  assumes "0 \<le> c" "c \<le> 100"
  shows "kalmanGainOf (kalmanInitialState h) (Num c) = Num (gainAt c)"
proof -
  have "201 - c \<noteq> 0" using assms by simp
  then show ?thesis
    by (simp add: kalmanGainOf_def predictedErrorCovarianceOf_def kalmanInitialState_def
        processNoise_def jsub_def gainAt_def Let_def)
qed

lemma kalmanFilterHeartRate_finite:
  assumes "0 \<le> c" "c \<le> 100" "estimate (kalmanInitialState h) = Num e"
  shows "kalmanFilterHeartRate h (Num m) (Num c) = Num (of_int (filterReal e m c))"
  using assms(3) kalmanGainOf_initial [OF assms(1,2), of h]
  by (simp add: kalmanFilterHeartRate_def kalmanUpdate_def Let_def jsub_def filterReal_def)

lemma kalmanFilterHeartRate_infinite:
  assumes "0 \<le> c" "c \<le> 100" "estimate (kalmanInitialState h) = PInf \<or> estimate (kalmanInitialState h) = NInf"
  shows "kalmanFilterHeartRate h (Num m) (Num c) = NaN"
proof -
  have "0 < gainAt c" using gainAt_bounds(1) [OF assms(1,2)] by simp
  then show ?thesis
  using assms(3) kalmanGainOf_initial [OF assms(1,2), of h]
  by (auto simp add: kalmanFilterHeartRate_def kalmanUpdate_def Let_def jsub_def infOf_def)
qed

lemma estimate_initial_cases:
  "estimate (kalmanInitialState h) = Num 75 \<or>
   (\<exists>r. r \<noteq> 0 \<and> h = Some (Num r) \<and> estimate (kalmanInitialState h) = Num r) \<or>
   estimate (kalmanInitialState h) = PInf \<or> estimate (kalmanInitialState h) = NInf"
proof (cases h)
  case None
  then show ?thesis by (simp add: kalmanInitialState_def)
next
  case (Some x)
  then show ?thesis by (cases x) (simp_all add: kalmanInitialState_def truthy_def)
qed

text \<open>
  C6. The claim says that the error covariance updated by one accepted measurement
  is the prior error covariance of the next. In the source the state object is
  built anew by every call: after a first call with measurement 80 and confidence
  50 the updated error covariance is 5050/151, the call returns 78, and the next
  call starts from the error covariance 100 again (predicted: 101).
\<close>

theorem kalman_errorCovariance_reset:
  "errorCovariance (kalmanUpdate (kalmanInitialState None) (Num 80) (Num 50)) = Num (5050 / 151) \<and>
   kalmanFilterHeartRate None (Num 80) (Num 50) = Num 78 \<and>
   errorCovariance (kalmanInitialState (Some (Num 78))) = Num 100 \<and>
   predictedErrorCovarianceOf (kalmanInitialState (Some (Num 78))) = Num 101"
proof -
  note defs = kalmanFilterHeartRate_def kalmanUpdate_def kalmanGainOf_def
    predictedErrorCovarianceOf_def kalmanInitialState_def processNoise_def jsub_def Let_def
  have "\<lfloor>(75 + 505 / 151 + 1 / 2 :: real)\<rfloor> = 78"
    by (simp add: floor_eq_iff)
  then have "kalmanFilterHeartRate None (Num 80) (Num 50) = Num 78"
    by (simp add: defs roundHalfUp_def)
  moreover have "errorCovariance (kalmanUpdate (kalmanInitialState None) (Num 80) (Num 50))
      = Num (5050 / 151)"
    by (simp add: defs)
  moreover have "errorCovariance (kalmanInitialState (Some (Num 78))) = Num 100"
    by (simp add: kalmanInitialState_def)
  moreover have "predictedErrorCovarianceOf (kalmanInitialState (Some (Num 78))) = Num 101"
    by (simp add: predictedErrorCovarianceOf_def kalmanInitialState_def processNoise_def)
  ultimately show ?thesis by blast
qed

subsection \<open>The peak detector\<close>

lemma foldl_upt_invariant:
  assumes "P lo acc" "lo \<le> hi"
    and "\<And>i a. lo \<le> i \<Longrightarrow> i < hi \<Longrightarrow> P i a \<Longrightarrow> P (Suc i) (f a i)"
  shows "P hi (foldl f acc [lo ..< hi])"
  using assms(2,3)
proof (induction hi)
  case 0
  then show ?case using assms(1) by simp
next
  case (Suc hi)
  show ?case
  proof (cases "lo \<le> hi")
    case True
    have "P hi (foldl f acc [lo ..< hi])"
      using True Suc.prems(2) by (intro Suc.IH) simp_all
    then have "P (Suc hi) (f (foldl f acc [lo ..< hi]) hi)"
      using True by (intro Suc.prems(2)) simp_all
    then show ?thesis using True by simp
  next
    case False
    then have "lo = Suc hi" using Suc.prems(1) by simp
    then show ?thesis using assms(1) by simp
  qed
qed

text \<open>At a sample above both neighbours the refinement moves by less than half a sample.\<close>

lemma jlt_never [simp]: "\<not> jlt x NInf" "\<not> jlt x NaN" "\<not> jlt PInf x" "\<not> jlt NaN x"
  by (cases x; simp)+

lemma parabola_offset_small:
  fixes a b c :: real
  assumes "a < b" "c < b"
  shows "\<bar>(a - c) / (2 * (a - 2 * b + c))\<bar> < 1 / 2"
proof -
  define H where "H = a - 2 * b + c"
  define n where "n = a - c"
  have "H < 0" using assms unfolding H_def by linarith
  then have den: "2 * H < 0" by simp
  have "H < n" using assms unfolding H_def n_def by linarith
  then have "1 / 2 * (2 * H) < n" by simp
  then have hi: "n / (2 * H) < 1 / 2" using den by (simp only: neg_divide_less_eq)
  have "n < - H" using assms unfolding H_def n_def by linarith
  then have "n < - (1 / 2) * (2 * H)" by simp
  then have lo: "- (1 / 2) < n / (2 * H)" using den by (simp only: neg_less_divide_eq)
  from lo hi have "\<bar>n / (2 * H)\<bar> < 1 / 2" by (simp only: abs_less_iff) simp
  then show ?thesis by (simp only: H_def n_def)
qed

lemma refine_offset_at_peak:
  assumes "jgt y2 y1" "jgt y2 y3"
  shows "\<not> jlt (jabs (jdiv (jsub y1 y3) (jmul (Num 2) (jadd (jsub y1 (jmul (Num 2) y2)) y3)))) (Num 1)
    \<or> (\<exists>d. \<bar>d\<bar> < 1 / 2 \<and>
          jdiv (jsub y1 y3) (jmul (Num 2) (jadd (jsub y1 (jmul (Num 2) y2)) y3)) = Num d)"
proof (cases y2)
  case (Num b)
  show ?thesis
  proof (cases y1)
    case y1: (Num a)
    show ?thesis
    proof (cases y3)
      case y3: (Num c)
      have lt: "a < b" "c < b" using assms by (simp_all add: jgt_def Num y1 y3)
      then have "2 * (a - 2 * b + c) \<noteq> 0" by simp
      then have "jdiv (jsub y1 y3) (jmul (Num 2) (jadd (jsub y1 (jmul (Num 2) y2)) y3))
          = Num ((a - c) / (2 * (a - 2 * b + c)))"
        by (simp add: Num y1 y3 jsub_def)
      then show ?thesis using parabola_offset_small [OF lt] by simp
    qed (use assms in \<open>simp_all add: jgt_def Num y1 jsub_def infOf_def\<close>)
  qed (use assms in \<open>cases y3; simp_all add: jgt_def Num jsub_def infOf_def\<close>)+
next
  case PInf
  then show ?thesis using assms
    by (cases y1; cases y3; simp add: jgt_def jsub_def infOf_def)
qed (use assms in \<open>simp_all add: jgt_def\<close>)

lemma refinePeakLocation_at_peak:
  assumes "jgt (data ! i) (data ! (i - 1))" "jgt (data ! i) (data ! (i + 1))"
  shows "\<exists>d. \<bar>d\<bar> < 1 / 2 \<and> refinePeakLocation data (int i) = Num (real i + d)"
proof (cases "int i \<le> 0 \<or> int i \<ge> int (length data) - 1")
  case True
  then have "refinePeakLocation data (int i) = Num (real i + 0)"
    by (simp add: refinePeakLocation_def)
  then show ?thesis by (intro exI [of _ 0]) simp
next
  case False
  then have idx: "nat (int i - 1) = i - 1" "nat (int i + 1) = i + 1" by simp_all
  let ?off = "jdiv (jsub (data ! (i - 1)) (data ! (i + 1)))
      (jmul (Num 2) (jadd (jsub (data ! (i - 1)) (jmul (Num 2) (data ! i))) (data ! (i + 1))))"
  have r: "refinePeakLocation data (int i) =
      (if jlt (jabs ?off) (Num 1) then jadd (Num (real i)) ?off else Num (real i))"
    using False by (simp add: refinePeakLocation_def idx Let_def)
  from refine_offset_at_peak [OF assms]
  consider "\<not> jlt (jabs ?off) (Num 1)" | d where "\<bar>d\<bar> < 1 / 2" "?off = Num d"
    by blast
  then show ?thesis
  proof cases
    case 1
    then have "refinePeakLocation data (int i) = Num (real i + 0)" by (simp add: r)
    then show ?thesis by (intro exI [of _ 0]) simp
  next
    case 2
    then have "refinePeakLocation data (int i) = Num (real i + d)" by (simp add: r)
    then show ?thesis using 2(1) by blast
  qed
qed

lemma tooClose_Num:
  "list_ex (\<lambda>peakIndex. jlt (jabs (jsub (Num x) peakIndex)) minPeakDistance) (map Num ps)
   = (\<exists>p\<in>set ps. \<bar>x - p\<bar> < 8)"
  by (induction ps) (auto simp: jsub_def minPeakDistance_def)

lemma peakStep_peaksBefore:
  assumes "peaksBefore i peaks"
  shows "peaksBefore (Suc i) (peakStep data thr peaks i)"
proof -
  from assms obtain ps where ps: "peaks = map Num ps"
    "sorted_wrt (\<lambda>a b. a + 15 / 2 < b) ps" "list_all (\<lambda>p. p < real i - 1 / 2) ps"
    unfolding peaksBefore_def by blast
  have keep: "peaksBefore (Suc i) peaks"
    unfolding peaksBefore_def
    using ps by (intro exI [of _ ps]) (auto simp: list_all_iff)
  show ?thesis
  proof (cases "peakStep data thr peaks i = peaks")
    case True
    then show ?thesis using keep by simp
  next
    case False
    then have cand: "jgt (data ! i) (data ! (i - 1))" "jgt (data ! i) (data ! (i + 1))"
      and far: "\<not> list_ex (\<lambda>peakIndex. jlt (jabs (jsub (Num (real i)) peakIndex)) minPeakDistance) peaks"
      and new: "peakStep data thr peaks i = peaks @ [refinePeakLocation data (int i)]"
      by (auto simp: peakStep_def Let_def split: if_splits)
    from refinePeakLocation_at_peak [OF cand] obtain d where
      d: "\<bar>d\<bar> < 1 / 2" "refinePeakLocation data (int i) = Num (real i + d)" by blast
    have gap: "p + 15 / 2 < real i + d" if "p \<in> set ps" for p
    proof -
      have "\<not> \<bar>real i - p\<bar> < 8" using far that by (simp add: ps(1) tooClose_Num)
      moreover have "p < real i - 1 / 2" using ps(3) that by (simp add: list_all_iff)
      ultimately show ?thesis using d(1) by linarith
    qed
    have "peakStep data thr peaks i = map Num (ps @ [real i + d])"
      unfolding new d(2) by (simp add: ps(1))
    moreover have "sorted_wrt (\<lambda>a b. a + 15 / 2 < b) (ps @ [real i + d])"
      using ps(2) gap by (simp add: sorted_wrt_append)
    moreover have "list_all (\<lambda>p. p < real (Suc i) - 1 / 2) (ps @ [real i + d])"
      using ps(3) d(1) by (auto simp: list_all_iff)
    ultimately show ?thesis unfolding peaksBefore_def by blast
  qed
qed

lemma enhancedPeakDetection_peaksBefore:
  "\<exists>i. peaksBefore i (enhancedPeakDetection data)"
proof (cases "length data < 10")
  case True
  then show ?thesis by (simp add: enhancedPeakDetection_def peaksBefore_def)
next
  case False
  have "peaksBefore (length data - 2)
      (foldl (peakStep data (adaptiveThresholdOf data)) [] [2 ..< length data - 2])"
  proof (rule foldl_upt_invariant)
    show "peaksBefore 2 []" by (simp add: peaksBefore_def)
    show "2 \<le> length data - 2" using False by simp
  next
    fix i a
    assume "peaksBefore i a"
    then show "peaksBefore (Suc i) (peakStep data (adaptiveThresholdOf data) a i)"
      by (rule peakStep_peaksBefore)
  qed
  then show ?thesis using False by (auto simp: enhancedPeakDetection_def)
qed

lemma enhancedPeakDetection_spaced:
  "\<exists>ps. enhancedPeakDetection data = map Num ps \<and> sorted_wrt (\<lambda>a b. a + 15 / 2 < b) ps"
  using enhancedPeakDetection_peaksBefore [of data] unfolding peaksBefore_def by blast

lemma twoPeakSignal_threshold:
  "\<exists>t. adaptiveThresholdOf twoPeakSignal = Num t \<and> t < 100"
proof -
  define v :: real where "v = 410000 / 441"
  have mean: "jdiv (jsum twoPeakSignal) (Num (real (length twoPeakSignal))) = Num (250 / 21)"
    by (simp add: twoPeakSignal_def jsum_def)
  have var: "jdiv (foldl (\<lambda>sum val. jadd sum (jpow2 (jsub val (Num (250 / 21))))) (Num 0) twoPeakSignal)
                       (Num (real (length twoPeakSignal))) = Num v"
    by (simp add: twoPeakSignal_def jsub_def v_def)
  have lo: "20 \<le> sqrt v" by (rule real_le_rsqrt) (simp add: v_def)
  have hi: "sqrt v < 34" by (rule real_less_lsqrt) (simp_all add: v_def)
  have nf: "jmin2 (Num 1) (jdiv (jsqrt (Num v)) (Num 20)) = Num 1"
    using lo by (simp add: jmin2_def v_def)
  have "adaptiveThresholdOf twoPeakSignal = Num (250 / 21 + (3 / 2 + 1) * sqrt v)"
    unfolding adaptiveThresholdOf_def Let_def mean var nf by (simp add: v_def)
  moreover have "250 / 21 + (3 / 2 + 1) * sqrt v < 100" using hi by simp
  ultimately show ?thesis by blast
qed

lemma twoPeakSignal_loop:
  assumes "t < 100"
  shows "foldl (peakStep twoPeakSignal (Num t)) [] [2 ..< 19] = [Num 5, Num (77 / 6)]"
  using assms
  by (simp add: upt_rec twoPeakSignal_def peakStep_def jgt_def refinePeakLocation_def
      minPeakDistance_def jsub_def Let_def)

lemma twoPeakSignal_peaks: "enhancedPeakDetection twoPeakSignal = [Num 5, Num (77 / 6)]"
proof -
  from twoPeakSignal_threshold obtain t where
    t: "adaptiveThresholdOf twoPeakSignal = Num t" "t < 100" by blast
  have "length twoPeakSignal = 21" by (simp add: twoPeakSignal_def)
  then have "enhancedPeakDetection twoPeakSignal = foldl (peakStep twoPeakSignal (Num t)) [] [2 ..< 19]"
    by (simp add: enhancedPeakDetection_def t(1))
  then show ?thesis using twoPeakSignal_loop [OF t(2)] by simp
qed

lemma closePeakSignal_threshold:
  "\<exists>t. adaptiveThresholdOf closePeakSignal = Num t \<and> 86 < t \<and> t < 87"
proof -
  define v :: real where "v = 44000 / 49"
  have mean: "jdiv (jsum closePeakSignal) (Num (real (length closePeakSignal))) = Num (80 / 7)"
    by (simp add: closePeakSignal_def jsum_def)
  have var: "jdiv (foldl (\<lambda>sum val. jadd sum (jpow2 (jsub val (Num (80 / 7))))) (Num 0) closePeakSignal)
                       (Num (real (length closePeakSignal))) = Num v"
    by (simp add: closePeakSignal_def jsub_def v_def)
  have lo: "299 / 10 < sqrt v" by (rule real_less_rsqrt) (simp add: v_def power2_eq_square)
  have hi: "sqrt v < 30" by (rule real_less_lsqrt) (simp_all add: v_def)
  have nf: "jmin2 (Num 1) (jdiv (jsqrt (Num v)) (Num 20)) = Num 1"
    using lo by (simp add: jmin2_def v_def)
  have "adaptiveThresholdOf closePeakSignal = Num (80 / 7 + (3 / 2 + 1) * sqrt v)"
    unfolding adaptiveThresholdOf_def Let_def mean var nf by (simp add: v_def)
  moreover have "80 / 7 + (3 / 2 + 1) * sqrt v < 87" using hi by simp
  moreover have "86 < 80 / 7 + (3 / 2 + 1) * sqrt v" using lo by simp
  ultimately show ?thesis by blast
qed

lemma closePeakSignal_loop:
  assumes "t < 100"
  shows "foldl (peakStep closePeakSignal (Num t)) [] [2 ..< 19] = [Num 5, Num (103 / 8)]"
  using assms
  by (simp add: upt_rec closePeakSignal_def peakStep_def jgt_def refinePeakLocation_def
      minPeakDistance_def jsub_def Let_def)

lemma closePeakSignal_peaks: "enhancedPeakDetection closePeakSignal = [Num 5, Num (103 / 8)]"
proof -
  from closePeakSignal_threshold obtain t where
    t: "adaptiveThresholdOf closePeakSignal = Num t" "t < 100" by fastforce
  have "length closePeakSignal = 21" by (simp add: closePeakSignal_def)
  then have "enhancedPeakDetection closePeakSignal = foldl (peakStep closePeakSignal (Num t)) [] [2 ..< 19]"
    by (simp add: enhancedPeakDetection_def t(1))
  then show ?thesis using closePeakSignal_loop [OF t(2)] by simp
qed

lemma toDouble_eighth: "toDouble (- (1 / 8)) = Num (- (1 / 8))"
proof -
  have e: "exponentOf (- (1 / 8)) = - 3"
    by (rule exponentOf_eq[where p = "1 / 8"]) (simp_all add: powr_neg_numeral_two)
  show ?thesis
    by (rule toDouble_exact[OF e, where u = "1 / 2 ^ 55" and n = "- (2 ^ 52)"])
      (simp_all add: powr_neg_numeral_two)
qed

lemma toDouble_103_8: "toDouble (103 / 8) = Num (103 / 8)"
proof -
  have e: "exponentOf (103 / 8) = 3"
    by (rule exponentOf_eq[where p = 8]) (simp_all add: powr_neg_numeral_two)
  show ?thesis
    by (rule toDouble_exact[OF e, where u = "1 / 2 ^ 49" and n = "103 * 2 ^ 46"])
      (simp_all add: powr_neg_numeral_two)
qed

lemma refine_first: "refinePeakLocationDouble closePeakSignal 5 = Num 5"
  by (simp add: refinePeakLocationDouble_def closePeakSignal_def Let_def dadd_def dsub_def
      dmul_def ddiv_def jsub_def toDouble_0 toDouble_numeral toDouble_neg_numeral)

lemma refine_second: "refinePeakLocationDouble closePeakSignal 13 = Num (103 / 8)"
  using toDouble_eighth toDouble_103_8
  by (simp add: refinePeakLocationDouble_def closePeakSignal_def Let_def dadd_def dsub_def
      dmul_def ddiv_def jsub_def toDouble_0 toDouble_numeral toDouble_neg_numeral)

lemma closePeakSignal_loop_double:
  assumes "0 \<le> t" "t < 100"
  shows "foldl (peakStepDouble closePeakSignal (Num t)) [] [2 ..< length closePeakSignal - 2]
    = [Num 5, Num (103 / 8)]"
proof -
  have len: "length closePeakSignal - 2 = 19" by (simp add: closePeakSignal_def)
  have nth: "closePeakSignal ! 0 = Num 0" "closePeakSignal ! 1 = Num 0" "closePeakSignal ! 2 = Num 0"
    "closePeakSignal ! 3 = Num 0" "closePeakSignal ! 4 = Num 0" "closePeakSignal ! 5 = Num 100"
    "closePeakSignal ! 6 = Num 0" "closePeakSignal ! 7 = Num 0" "closePeakSignal ! 8 = Num 0"
    "closePeakSignal ! 9 = Num 0" "closePeakSignal ! 10 = Num 0" "closePeakSignal ! 11 = Num 0"
    "closePeakSignal ! 12 = Num 40" "closePeakSignal ! 13 = Num 100" "closePeakSignal ! 14 = Num 0"
    "closePeakSignal ! 15 = Num 0" "closePeakSignal ! 16 = Num 0" "closePeakSignal ! 17 = Num 0"
    "closePeakSignal ! 18 = Num 0" "closePeakSignal ! 19 = Num 0" "closePeakSignal ! 20 = Num 0"
    by (simp_all add: closePeakSignal_def)
  have r5: "refinePeakLocationDouble closePeakSignal (int 5) = Num 5"
    using refine_first by simp
  have r13: "refinePeakLocationDouble closePeakSignal (int 13) = Num (103 / 8)"
    using refine_second by simp
  have far: "\<not> jlt (jabs (dsub (Num (real 13)) (Num 5))) minPeakDistance"
    by (simp add: dsub_def jsub_def minPeakDistance_def toDouble_numeral)
  show ?thesis
    unfolding len using assms r5 r13 far
    by (simp add: upt_rec peakStepDouble_def jgt_def nth Let_def)
qed

text \<open>
  C2. On the signal \<open>closePeakSignal\<close> the peak detector returns the positions 5
  and 12.875, which are 7.875 samples apart, less than the minimum distance of 8
  samples: index 13 is 8 away from the accepted peak 5 and passes the distance
  check, which is made on the index before its refinement, and the refinement
  then moves it to 12.875. The threshold is between 86 and 87, and is compared
  with the samples 0, 40 and 100 only; every intermediate value of the two
  refinements is a binary64 number, so the search loop with the rounding of
  every operation returns the same positions, for every threshold from 0 to
  below 100.
\<close>

theorem enhancedPeakDetection_gap_below_minimum:
  "enhancedPeakDetection closePeakSignal = [Num 5, Num (103 / 8)] \<and>
   (\<exists>t. adaptiveThresholdOf closePeakSignal = Num t \<and> 86 < t \<and> t < 87) \<and>
   (\<forall>t. 0 \<le> t \<and> t < 100 \<longrightarrow>
      foldl (peakStepDouble closePeakSignal (Num t)) [] [2 ..< length closePeakSignal - 2]
        = [Num 5, Num (103 / 8)]) \<and>
   jlt (jsub (Num (103 / 8)) (Num 5)) minPeakDistance"
  using closePeakSignal_threshold closePeakSignal_loop_double
  by (simp add: closePeakSignal_peaks jsub_def minPeakDistance_def)

theorem enhancedPeakDetection_gap_below_minimum_witness:
  "enhancedPeakDetection closePeakSignal = [Num 5, Num (103 / 8)] \<and>
   foldl (peakStepDouble closePeakSignal (Num (173 / 2))) [] [2 ..< length closePeakSignal - 2]
     = [Num 5, Num (103 / 8)] \<and>
   jlt (jsub (Num (103 / 8)) (Num 5)) minPeakDistance"
proof -
  note a = enhancedPeakDetection_gap_below_minimum
  from a have "0 \<le> (173 / 2 :: real) \<and> (173 / 2 :: real) < 100 \<longrightarrow>
      foldl (peakStepDouble closePeakSignal (Num (173 / 2))) [] [2 ..< length closePeakSignal - 2]
        = [Num 5, Num (103 / 8)]"
    by blast
  then have "foldl (peakStepDouble closePeakSignal (Num (173 / 2))) []
      [2 ..< length closePeakSignal - 2] = [Num 5, Num (103 / 8)]"
    by simp
  with a show ?thesis by blast
qed

subsection \<open>The signal quality scorer\<close>

lemma all_isNum_map: "list_all isNum data \<Longrightarrow> data = map Num (map theNum data)"
proof (induction data)
  case Nil
  show ?case by simp
next
  case (Cons x data)
  then show ?case by (cases x) simp_all
qed

lemma foldl_jadd_Num: "foldl jadd (Num a) (map Num xs) = Num (a + sum_list xs)"
  by (induction xs arbitrary: a) (simp_all add: add.assoc)

lemma jsum_Num: "jsum (map Num xs) = Num (sum_list xs)"
  by (simp add: jsum_def foldl_jadd_Num)

lemma foldl_sqdev_Num:
  "foldl (\<lambda>sum val. jadd sum (jpow2 (jsub val (Num m)))) (Num a) (map Num xs)
   = Num (a + (\<Sum>x\<leftarrow>xs. (x - m) * (x - m)))"
  by (induction xs arbitrary: a) (simp_all add: jsub_def add.assoc)

text \<open>A sum that meets a value that is not finite is not finite, and an infinite sum
  has met that infinity.\<close>

lemma foldl_jadd_special:
  "foldl jadd acc data = NaN
   \<or> (foldl jadd acc data = PInf \<and> (acc = PInf \<or> PInf \<in> set data))
   \<or> (foldl jadd acc data = NInf \<and> (acc = NInf \<or> NInf \<in> set data))
   \<or> (isNum (foldl jadd acc data) \<and> isNum acc \<and> list_all isNum data)"
proof (induction data arbitrary: acc)
  case Nil
  show ?case by (cases acc) simp_all
next
  case (Cons x data)
  show ?case
    using Cons.IH [of "jadd acc x"]
    by (cases acc; cases x) auto
qed

lemma foldl_jadd_NaN_term:
  assumes "acc = NaN \<or> (\<exists>v\<in>set data. g v = NaN)"
  shows "foldl (\<lambda>sum val. jadd sum (g val)) acc data = NaN"
  using assms
proof (induction data arbitrary: acc)
  case Nil
  then show ?case by simp
next
  case (Cons x data)
  have "jadd acc (g x) = NaN \<or> (\<exists>v\<in>set data. g v = NaN)"
    using Cons.prems by (cases acc; cases "g x") auto
  then show ?case using Cons.IH [of "jadd acc (g x)"] by simp
qed

lemma jadd_NaN_right [simp]: "jadd x NaN = NaN"
  by (cases x) simp_all

lemma adaptiveThresholdOf_not_finite:
  assumes "\<not> list_all isNum data"
  shows "adaptiveThresholdOf data = NaN"
proof -
  have ne: "data \<noteq> []" using assms by auto
  then have n: "real (length data) \<noteq> 0" "0 \<le> real (length data)" by simp_all
  define mean where "mean = jdiv (jsum data) (Num (real (length data)))"
  from foldl_jadd_special [of "Num 0" data] assms
  consider "jsum data = NaN" | "jsum data = PInf" "PInf \<in> set data"
    | "jsum data = NInf" "NInf \<in> set data"
    unfolding jsum_def by auto
  then have "mean = NaN \<or> (\<exists>v\<in>set data. jpow2 (jsub v mean) = NaN)"
  proof cases
    case 1
    then show ?thesis by (simp add: mean_def)
  next
    case 2
    then have "mean = PInf" using n by (simp add: mean_def)
    moreover have "jpow2 (jsub PInf PInf) = NaN" by (simp add: jsub_def)
    ultimately show ?thesis using 2(2) by blast
  next
    case 3
    then have "mean = NInf" using n by (simp add: mean_def)
    moreover have "jpow2 (jsub NInf NInf) = NaN" by (simp add: jsub_def)
    ultimately show ?thesis using 3(2) by blast
  qed
  then show ?thesis
  proof
    assume "mean = NaN"
    then show ?thesis by (simp add: adaptiveThresholdOf_def Let_def mean_def [symmetric])
  next
    assume "\<exists>v\<in>set data. jpow2 (jsub v mean) = NaN"
    then have "foldl (\<lambda>sum val. jadd sum (jpow2 (jsub val mean))) (Num 0) data = NaN"
      by (intro foldl_jadd_NaN_term) simp
    then show ?thesis
      by (simp add: adaptiveThresholdOf_def Let_def mean_def [symmetric] jmin2_def)
  qed
qed

lemma peakStep_NaN: "peakStep data NaN peaks i = peaks"
  by (simp add: peakStep_def jgt_def)

lemma foldl_peakStep_NaN: "foldl (peakStep data NaN) peaks is = peaks"
  by (induction "is" arbitrary: peaks) (simp_all add: peakStep_NaN)

lemma peaks_need_finite_data:
  assumes "enhancedPeakDetection data \<noteq> []"
  shows "list_all isNum data"
proof (rule ccontr)
  assume "\<not> list_all isNum data"
  then have "adaptiveThresholdOf data = NaN" by (rule adaptiveThresholdOf_not_finite)
  then have "enhancedPeakDetection data = []"
    by (simp add: enhancedPeakDetection_def foldl_peakStep_NaN)
  then show False using assms by simp
qed

lemma intervalsOf_Num: "intervalsOf (map Num ps) = map Num (peakIntervals ps)"
proof -
  have "jsub (map Num ps ! i) (map Num ps ! (i - 1)) = Num (ps ! i - ps ! (i - 1))"
    if "i \<in> set [1 ..< length ps]" for i
  proof -
    have "i < length ps" "i - 1 < length ps" using that by auto
    then show ?thesis by (simp add: jsub_def)
  qed
  then show ?thesis
    unfolding intervalsOf_def peakIntervals_def length_map map_map comp_def
    by (intro map_cong) simp_all
qed

lemma peakIntervals_positive:
  assumes "sorted_wrt (\<lambda>a b. a + 15 / 2 < b) ps" "d \<in> set (peakIntervals ps)"
  shows "15 / 2 < d"
proof -
  from assms(2) obtain i where i: "1 \<le> i" "i < length ps" "d = ps ! i - ps ! (i - 1)"
    by (auto simp: peakIntervals_def)
  have "ps ! (i - 1) + 15 / 2 < ps ! i"
    using sorted_wrt_nth_less [OF assms(1), of "i - 1" i] i by simp
  then show ?thesis using i(3) by simp
qed

lemma sum_list_above:
  fixes ds :: "real list"
  assumes "\<And>d. d \<in> set ds \<Longrightarrow> c < d" "ds \<noteq> []" "0 \<le> c"
  shows "c < sum_list ds"
  using assms
proof (induction ds)
  case Nil
  then show ?case by simp
next
  case (Cons d ds)
  show ?case
  proof (cases "ds = []")
    case True
    then show ?thesis using Cons.prems(1) [of d] by simp
  next
    case False
    have "c < sum_list ds" using Cons.prems False by (intro Cons.IH) simp_all
    moreover have "c < d" using Cons.prems(1) by simp
    ultimately show ?thesis using Cons.prems(3) by simp
  qed
qed

lemma jmin2_Num: "jmin2 (Num a) (Num b) = Num (min a b)"
  by (simp add: jmin2_def min_def)

lemma jmax2_Num: "jmax2 (Num a) (Num b) = Num (max a b)"
  by (simp add: jmax2_def max_def)

lemma calculateSignalQuality_finite:
  assumes len: "20 \<le> length xs"
    and peaks: "enhancedPeakDetection (map Num xs) = map Num ps"
    and two: "2 \<le> length ps"
    and gap: "sorted_wrt (\<lambda>a b. a + 15 / 2 < b) ps"
  shows "calculateSignalQuality (map Num xs) =
     Num (7 / 10 * clamp (1 - coefficientOfVariation (peakIntervals ps)) 0 1
          + 3 / 10 * clamp ((Max (set xs) - Min (set xs)) / 50) 0 1)"
proof -
  define ds where "ds = peakIntervals ps"
  define n where "n = real (length ds)"
  define mean where "mean = sum_list ds / n"
  define var where "var = (\<Sum>d\<leftarrow>ds. (d - mean) * (d - mean)) / n"
  have "1 < length ps" using two by simp
  then have ne: "ds \<noteq> []" by (auto simp: ds_def peakIntervals_def)
  then have n: "0 < n" by (simp add: n_def)
  have "15 / 2 < sum_list ds"
    using peakIntervals_positive [OF gap] ne by (intro sum_list_above) (simp_all add: ds_def)
  then have "0 < sum_list ds" by simp
  then have mean: "0 < mean" using n by (simp add: mean_def)
  have "0 \<le> (\<Sum>d\<leftarrow>ds. (d - mean) * (d - mean))" by (intro sum_list_nonneg) auto
  then have var: "0 \<le> var" using n by (simp add: var_def)
  have cvdef: "coefficientOfVariation ds = sqrt var / mean"
    by (simp add: coefficientOfVariation_def Let_def var_def mean_def n_def)
  have xs: "xs \<noteq> []" using len by auto
  have range: "Min (set xs) \<le> Max (set xs)" using xs by simp
  have s1: "jdiv (jsum (map Num ds)) (Num n) = Num mean"
    using n by (simp add: jsum_Num mean_def)
  have s2: "jdiv (foldl (\<lambda>sum val. jadd sum (jpow2 (jsub val (Num mean)))) (Num 0) (map Num ds))
              (Num n) = Num var"
    using n by (simp add: foldl_sqdev_Num var_def)
  have mean0: "mean \<noteq> 0" using mean by simp
  have s4: "jdiv (jsub (mathMax (map Num xs)) (mathMin (map Num xs))) (Num 50)
      = Num ((Max (set xs) - Min (set xs)) / 50)"
    using xs by (simp add: mathMax_Num mathMin_Num jsub_def)
  have amp: "min 1 ((Max (set xs) - Min (set xs)) / 50) = clamp ((Max (set xs) - Min (set xs)) / 50) 0 1"
    using range by (simp add: clamp_def)
  have reg: "max 0 (min 1 (1 - sqrt var / mean)) = clamp (1 - coefficientOfVariation ds) 0 1"
    by (simp add: clamp_def cvdef)
  have "calculateSignalQuality (map Num xs) =
      jadd (jmul (Num (7 / 10)) (jmax2 (Num 0) (jmin2 (Num 1) (jsub (Num 1) (Num (sqrt var / mean))))))
           (jmul (Num (3 / 10)) (jmin2 (Num 1) (Num ((Max (set xs) - Min (set xs)) / 50))))"
    using len two var mean0
    by (simp add: calculateSignalQuality_def Let_def peaks intervalsOf_Num
        ds_def [symmetric] n_def [symmetric] s1 s2 s4)
  also have "\<dots> = Num (7 / 10 * max 0 (min 1 (1 - sqrt var / mean))
      + 3 / 10 * min 1 ((Max (set xs) - Min (set xs)) / 50))"
    by (simp add: jsub_def jmin2_Num jmax2_Num)
  finally show ?thesis unfolding amp reg ds_def .
qed

lemma clamp_unit: "0 \<le> clamp x 0 1" "clamp x 0 1 \<le> 1"
  by (simp_all add: clamp_def)

lemma quality_formula_unit:
  "0 \<le> 7 / 10 * clamp x 0 1 + 3 / 10 * clamp y 0 1"
  "7 / 10 * clamp x 0 1 + 3 / 10 * clamp y 0 1 \<le> 1"
  using clamp_unit [of x] clamp_unit [of y] by linarith+

lemma calculateSignalQuality_formula:
  assumes "20 \<le> length data" "2 \<le> length (enhancedPeakDetection data)"
  shows "\<exists>xs ps. data = map Num xs \<and> enhancedPeakDetection data = map Num ps \<and>
     calculateSignalQuality data =
       Num (7 / 10 * clamp (1 - coefficientOfVariation (peakIntervals ps)) 0 1
            + 3 / 10 * clamp ((Max (set xs) - Min (set xs)) / 50) 0 1)"
proof -
  have "enhancedPeakDetection data \<noteq> []" using assms(2) by auto
  then have "list_all isNum data" by (rule peaks_need_finite_data)
  then obtain xs where xs: "data = map Num xs" using all_isNum_map by blast
  from enhancedPeakDetection_spaced [of data] obtain ps where
    ps: "enhancedPeakDetection data = map Num ps" "sorted_wrt (\<lambda>a b. a + 15 / 2 < b) ps"
    by blast
  have "calculateSignalQuality (map Num xs) =
       Num (7 / 10 * clamp (1 - coefficientOfVariation (peakIntervals ps)) 0 1
            + 3 / 10 * clamp ((Max (set xs) - Min (set xs)) / 50) 0 1)"
    using assms ps by (intro calculateSignalQuality_finite) (simp_all add: xs)
  then show ?thesis using xs ps(1) by blast
qed

lemma calculateSignalQuality_unit:
  "\<exists>q. calculateSignalQuality data = Num q \<and> 0 \<le> q \<and> q \<le> 1"
proof -
  consider "length data < 20" | "20 \<le> length data" "length (enhancedPeakDetection data) < 2"
    | "20 \<le> length data" "2 \<le> length (enhancedPeakDetection data)"
    by linarith
  then show ?thesis
  proof cases
    case 1
    then show ?thesis by (simp add: calculateSignalQuality_def)
  next
    case 2
    then have "calculateSignalQuality data = Num (2 / 10)"
      by (simp add: calculateSignalQuality_def)
    then show ?thesis by (intro exI [of _ "2 / 10"]) simp
  next
    case 3
    from calculateSignalQuality_formula [OF 3] quality_formula_unit show ?thesis by metis
  qed
qed

lemma flat_no_peaks: "enhancedPeakDetection (replicate 20 (Num 0)) = []"
  by (simp add: enhancedPeakDetection_def peakStep_def jgt_def upt_rec)

text \<open>
  C8. For every input signal the quality scorer returns 0 on fewer than 20 samples
  and 0.2 when peak detection finds fewer than 2 peaks; otherwise the signal is
  finite and the score is \<open>0.7 * clamp (1 - CV) 0 1 + 0.3 * clamp ((max - min) / 50) 0 1\<close>,
  with \<open>CV\<close> the coefficient of variation of the intervals between the peaks. In
  every case the score is a finite number in [0, 1].
\<close>

theorem calculateSignalQuality_cases:
  "(length data < 20 \<longrightarrow> calculateSignalQuality data = Num 0) \<and>
   (20 \<le> length data \<and> length (enhancedPeakDetection data) < 2 \<longrightarrow>
      calculateSignalQuality data = Num (2 / 10)) \<and>
   (20 \<le> length data \<and> 2 \<le> length (enhancedPeakDetection data) \<longrightarrow>
      (\<exists>xs ps. data = map Num xs \<and> enhancedPeakDetection data = map Num ps \<and>
         calculateSignalQuality data =
           Num (7 / 10 * clamp (1 - coefficientOfVariation (peakIntervals ps)) 0 1
                + 3 / 10 * clamp ((Max (set xs) - Min (set xs)) / 50) 0 1))) \<and>
   (\<exists>q. calculateSignalQuality data = Num q \<and> 0 \<le> q \<and> q \<le> 1)"
proof (intro conjI impI)
  assume "length data < 20"
  then show "calculateSignalQuality data = Num 0"
    by (simp add: calculateSignalQuality_def)
next
  assume "20 \<le> length data \<and> length (enhancedPeakDetection data) < 2"
  then show "calculateSignalQuality data = Num (2 / 10)"
    by (simp add: calculateSignalQuality_def)
next
  assume "20 \<le> length data \<and> 2 \<le> length (enhancedPeakDetection data)"
  then show "\<exists>xs ps. data = map Num xs \<and> enhancedPeakDetection data = map Num ps \<and>
         calculateSignalQuality data =
           Num (7 / 10 * clamp (1 - coefficientOfVariation (peakIntervals ps)) 0 1
                + 3 / 10 * clamp ((Max (set xs) - Min (set xs)) / 50) 0 1)"
    using calculateSignalQuality_formula [of data] by blast
next
  show "\<exists>q. calculateSignalQuality data = Num q \<and> 0 \<le> q \<and> q \<le> 1"
    by (rule calculateSignalQuality_unit)
qed

theorem calculateSignalQuality_cases_witness:
  "calculateSignalQuality [] = Num 0 \<and>
   calculateSignalQuality (replicate 20 (Num 0)) = Num (2 / 10) \<and>
   (\<exists>xs ps. twoPeakSignal = map Num xs \<and> enhancedPeakDetection twoPeakSignal = map Num ps \<and>
      calculateSignalQuality twoPeakSignal =
        Num (7 / 10 * clamp (1 - coefficientOfVariation (peakIntervals ps)) 0 1
             + 3 / 10 * clamp ((Max (set xs) - Min (set xs)) / 50) 0 1))"
proof -
  have a: "length ([] :: jsnum list) < 20" by simp
  have b: "20 \<le> length (replicate 20 (Num 0)) \<and>
      length (enhancedPeakDetection (replicate 20 (Num 0))) < 2"
    by (simp add: flat_no_peaks)
  have c: "20 \<le> length twoPeakSignal \<and> 2 \<le> length (enhancedPeakDetection twoPeakSignal)"
    by (simp add: twoPeakSignal_peaks) (simp add: twoPeakSignal_def)
  from calculateSignalQuality_cases [of "[]"] a
  have "calculateSignalQuality [] = Num 0" by blast
  moreover from calculateSignalQuality_cases [of "replicate 20 (Num 0)"] b
  have "calculateSignalQuality (replicate 20 (Num 0)) = Num (2 / 10)" by blast
  moreover from calculateSignalQuality_cases [of twoPeakSignal] c
  have "\<exists>xs ps. twoPeakSignal = map Num xs \<and> enhancedPeakDetection twoPeakSignal = map Num ps \<and>
      calculateSignalQuality twoPeakSignal =
        Num (7 / 10 * clamp (1 - coefficientOfVariation (peakIntervals ps)) 0 1
             + 3 / 10 * clamp ((Max (set xs) - Min (set xs)) / 50) 0 1)" by blast
  ultimately show ?thesis by blast
qed

subsection \<open>The rates a session accepts\<close>

lemma filterReal_between:
  assumes "0 \<le> c" "c \<le> 100" "40 \<le> e" "e \<le> 220" "40 \<le> m" "m \<le> 220"
  shows "40 \<le> filterReal e m c" "filterReal e m c \<le> 220"
proof -
  define k where "k = gainAt c"
  have k: "0 \<le> k" "k \<le> 1" using gainAt_bounds [OF assms(1,2)] by (simp_all add: k_def)
  define x where "x = e + k * (m - e)"
  have split: "x = (1 - k) * e + k * m" by (simp add: x_def algebra_simps)
  have a: "(1 - k) * 40 \<le> (1 - k) * e" using k assms(3) by (intro mult_left_mono) simp_all
  have b: "k * 40 \<le> k * m" using k assms(5) by (intro mult_left_mono) simp_all
  have a': "(1 - k) * e \<le> (1 - k) * 220" using k assms(4) by (intro mult_left_mono) simp_all
  have b': "k * m \<le> k * 220" using k assms(6) by (intro mult_left_mono) simp_all
  have "(1 - k) * 40 + k * 40 = 40" "(1 - k) * 220 + k * 220 = 220" by (simp_all add: algebra_simps)
  then have lo: "40 \<le> x" and hi: "x \<le> 220" using a b a' b' unfolding split by linarith+
  have "of_int 40 \<le> x + 1 / 2" using lo by simp
  then have "40 \<le> \<lfloor>x + 1 / 2\<rfloor>" by (simp only: le_floor_iff)
  then show "40 \<le> filterReal e m c" by (simp add: filterReal_def roundHalfUp_def x_def k_def)
  have "x + 1 / 2 < of_int 221" using hi by simp
  then have "\<lfloor>x + 1 / 2\<rfloor> < 221" by (simp only: floor_less_iff)
  then show "filterReal e m c \<le> 220" by (simp add: filterReal_def roundHalfUp_def x_def k_def)
qed

lemma accepted_round:
  assumes "jge (jround y) MIN_HEARTRATE" "jle (jround y) MAX_HEARTRATE"
  shows "acceptedRate (jround y)"
proof (cases y)
  case (Num a)
  then have "40 \<le> roundHalfUp a" "roundHalfUp a \<le> 220"
    using assms by (auto simp: jge_def jle_def jeq_def MIN_HEARTRATE_def MAX_HEARTRATE_def)
  then show ?thesis unfolding acceptedRate_def Num by (intro exI [of _ "roundHalfUp a"]) simp
qed (use assms in \<open>simp_all add: jge_def jle_def jeq_def MIN_HEARTRATE_def MAX_HEARTRATE_def\<close>)

lemma acceptedRate_plausible: "acceptedRate m \<Longrightarrow> plausibleRate (Some m)"
  unfolding acceptedRate_def plausibleRate_def by auto

lemma kalman_accepted:
  assumes "plausibleRate h" "percentage c" "acceptedRate m"
  shows "acceptedRate (kalmanFilterHeartRate h m c)"
proof -
  from assms(2) obtain q where q: "c = Num q" "0 \<le> q" "q \<le> 100"
    unfolding percentage_def by blast
  from assms(3) obtain k :: int where k: "m = Num (of_int k)" "40 \<le> k" "k \<le> 220"
    unfolding acceptedRate_def by blast
  from assms(1) obtain e where e: "estimate (kalmanInitialState h) = Num e" "40 \<le> e" "e \<le> 220"
    unfolding plausibleRate_def by (auto simp: kalmanInitialState_def truthy_def)
  have "kalmanFilterHeartRate h m c = Num (of_int (filterReal e (of_int k) q))"
    unfolding q(1) k(1) by (rule kalmanFilterHeartRate_finite [OF q(2,3) e(1)])
  moreover have "40 \<le> filterReal e (of_int k) q" "filterReal e (of_int k) q \<le> 220"
    using filterReal_between [OF q(2,3) e(2,3), of "of_int k"] k(2,3) by simp_all
  ultimately show ?thesis unfolding acceptedRate_def by blast
qed

lemma quality_percentage: "percentage (jmul (calculateSignalQuality data) (Num 100))"
proof -
  from calculateSignalQuality_unit [of data] obtain q where
    q: "calculateSignalQuality data = Num q" "0 \<le> q" "q \<le> 1" by blast
  then show ?thesis unfolding percentage_def by (intro exI [of _ "q * 100"]) simp
qed

text \<open>What one run of the heart-rate branch does to the stored rates.\<close>

lemma heartRateUpdate_cases:
  assumes "plausibleRate (heartRate render)" "percentage (confidence render)"
  shows "(measurements (heartRateUpdate render st) = measurements st \<and>
          heartRate (heartRateUpdate render st) = heartRate st \<and>
          confidence (heartRateUpdate render st) = confidence st)
       \<or> (\<exists>m. acceptedRate m \<and>
              measurements (heartRateUpdate render st) = measurements st @ [m] \<and>
              heartRate (heartRateUpdate render st) = Some m \<and>
              percentage (confidence (heartRateUpdate render st)))"
proof -
  define peaks where "peaks = enhancedPeakDetection (processPPG (signal render))"
  show ?thesis
  proof (cases "length peaks \<ge> 2 \<and> jge (calculatedHROf peaks) MIN_HEARTRATE
                  \<and> jle (calculatedHROf peaks) MAX_HEARTRATE")
    case False
    then show ?thesis by (auto simp: heartRateUpdate_def Let_def peaks_def)
  next
    case True
    then have "acceptedRate (calculatedHROf peaks)"
      unfolding calculatedHROf_def Let_def by (intro accepted_round) simp_all
    then have "acceptedRate
        (kalmanFilterHeartRate (heartRate render) (calculatedHROf peaks) (confidence render))"
      using assms by (intro kalman_accepted)
    then show ?thesis
      using True quality_percentage
      by (intro disjI2) (simp add: heartRateUpdate_def Let_def peaks_def)
  qed
qed

lemma sampleTick_cases:
  assumes "plausibleRate (heartRate render)" "percentage (confidence render)"
  shows "(measurements (sampleTick render st rgb) = measurements st \<and>
          heartRate (sampleTick render st rgb) = heartRate st \<and>
          confidence (sampleTick render st rgb) = confidence st)
       \<or> (\<exists>m. acceptedRate m \<and>
              measurements (sampleTick render st rgb) = measurements st @ [m] \<and>
              heartRate (sampleTick render st rgb) = Some m \<and>
              percentage (confidence (sampleTick render st rgb)))"
  using heartRateUpdate_cases [OF assms, of st]
  by (cases rgb) (auto simp: sampleTick_def Let_def)

lemma sound_sampled:
  assumes "sound render" "sound st"
  shows "sound (sampleTick render st rgb)"
proof -
  have r: "plausibleRate (heartRate render)" "percentage (confidence render)"
    using assms(1) by (simp_all add: sound_def)
  from sampleTick_cases [OF r, of st rgb] assms(2) acceptedRate_plausible
  show ?thesis unfolding sound_def by auto
qed

lemma rejected_rate_discarded:
  assumes "\<not> (jge (calculatedHROf (enhancedPeakDetection (processPPG (signal render))))
               MIN_HEARTRATE
            \<and> jle (calculatedHROf (enhancedPeakDetection (processPPG (signal render))))
               MAX_HEARTRATE)"
  shows "measurements (sampleTick render st rgb) = measurements st \<and>
         heartRate (sampleTick render st rgb) = heartRate st \<and>
         confidence (sampleTick render st rgb) = confidence st \<and>
         oxygenLevel (sampleTick render st rgb) = oxygenLevel st"
  using assms by (cases rgb) (auto simp: sampleTick_def heartRateUpdate_def Let_def)

lemma pulseSignal_threshold:
  "\<exists>t. adaptiveThresholdOf pulseSignal = Num t \<and> t < 120"
proof -
  define v :: real where "v = 10400 / 9"
  have mean: "jdiv (jsum pulseSignal) (Num (real (length pulseSignal))) = Num (100 / 3)"
    by (simp add: pulseSignal_def jsum_def)
  have var: "jdiv (foldl (\<lambda>sum val. jadd sum (jpow2 (jsub val (Num (100 / 3))))) (Num 0) pulseSignal)
                       (Num (real (length pulseSignal))) = Num v"
    by (simp add: pulseSignal_def jsub_def v_def)
  have lo: "20 \<le> sqrt v" by (rule real_le_rsqrt) (simp add: v_def)
  have hi: "sqrt v < 69 / 2" by (rule real_less_lsqrt) (simp_all add: v_def power2_eq_square)
  have nf: "jmin2 (Num 1) (jdiv (jsqrt (Num v)) (Num 20)) = Num 1"
    using lo by (simp add: jmin2_def v_def)
  have "adaptiveThresholdOf pulseSignal = Num (100 / 3 + (3 / 2 + 1) * sqrt v)"
    unfolding adaptiveThresholdOf_def Let_def mean var nf by (simp add: v_def)
  moreover have "100 / 3 + (3 / 2 + 1) * sqrt v < 120" using hi by simp
  ultimately show ?thesis by blast
qed

lemma pulseSignal_loop:
  assumes "t < 120"
  shows "foldl (peakStep pulseSignal (Num t)) [] [2 ..< 13] = [Num 3, Num 12]"
  using assms
  by (simp add: upt_rec pulseSignal_def peakStep_def jgt_def refinePeakLocation_def
      minPeakDistance_def jsub_def Let_def)

lemma pulseSignal_peaks: "enhancedPeakDetection pulseSignal = [Num 3, Num 12]"
proof -
  from pulseSignal_threshold obtain t where
    t: "adaptiveThresholdOf pulseSignal = Num t" "t < 120" by blast
  have "length pulseSignal = 15" by (simp add: pulseSignal_def)
  then have "enhancedPeakDetection pulseSignal = foldl (peakStep pulseSignal (Num t)) [] [2 ..< 13]"
    by (simp add: enhancedPeakDetection_def t(1))
  then show ?thesis using pulseSignal_loop [OF t(2)] by simp
qed

lemma fastSignal_threshold:
  "\<exists>t. adaptiveThresholdOf fastSignal = Num t \<and> t < 120"
proof -
  define v :: real where "v = 10400 / 9"
  have mean: "jdiv (jsum fastSignal) (Num (real (length fastSignal))) = Num (100 / 3)"
    by (simp add: fastSignal_def jsum_def)
  have var: "jdiv (foldl (\<lambda>sum val. jadd sum (jpow2 (jsub val (Num (100 / 3))))) (Num 0) fastSignal)
                       (Num (real (length fastSignal))) = Num v"
    by (simp add: fastSignal_def jsub_def v_def)
  have lo: "20 \<le> sqrt v" by (rule real_le_rsqrt) (simp add: v_def)
  have hi: "sqrt v < 69 / 2" by (rule real_less_lsqrt) (simp_all add: v_def power2_eq_square)
  have nf: "jmin2 (Num 1) (jdiv (jsqrt (Num v)) (Num 20)) = Num 1"
    using lo by (simp add: jmin2_def v_def)
  have "adaptiveThresholdOf fastSignal = Num (100 / 3 + (3 / 2 + 1) * sqrt v)"
    unfolding adaptiveThresholdOf_def Let_def mean var nf by (simp add: v_def)
  moreover have "100 / 3 + (3 / 2 + 1) * sqrt v < 120" using hi by simp
  ultimately show ?thesis by blast
qed

lemma fastSignal_loop:
  assumes "t < 120"
  shows "foldl (peakStep fastSignal (Num t)) [] [2 ..< 13] = [Num 3, Num 11]"
  using assms
  by (simp add: upt_rec fastSignal_def peakStep_def jgt_def refinePeakLocation_def
      minPeakDistance_def jsub_def Let_def)

lemma fastSignal_peaks: "enhancedPeakDetection fastSignal = [Num 3, Num 11]"
proof -
  from fastSignal_threshold obtain t where
    t: "adaptiveThresholdOf fastSignal = Num t" "t < 120" by blast
  have "length fastSignal = 15" by (simp add: fastSignal_def)
  then have "enhancedPeakDetection fastSignal = foldl (peakStep fastSignal (Num t)) [] [2 ..< 13]"
    by (simp add: enhancedPeakDetection_def t(1))
  then show ?thesis using fastSignal_loop [OF t(2)] by simp
qed

text \<open>The rates computed from the two signals, which are too short to be conditioned.\<close>

lemma pulseSignal_rate:
  "calculatedHROf (enhancedPeakDetection (processPPG pulseSignal)) = Num 200"
proof -
  have "processPPG pulseSignal = pulseSignal"
    by (simp add: processPPG_def applyAdvancedSignalProcessing_def pulseSignal_def)
  then show ?thesis
    by (simp add: pulseSignal_peaks calculatedHROf_def intervalsOf_def jsum_def jsub_def
        roundHalfUp_def Let_def)
qed

lemma fastSignal_rate:
  "calculatedHROf (enhancedPeakDetection (processPPG fastSignal)) = Num 225"
proof -
  have "processPPG fastSignal = fastSignal"
    by (simp add: processPPG_def applyAdvancedSignalProcessing_def fastSignal_def)
  then show ?thesis
    by (simp add: fastSignal_peaks calculatedHROf_def intervalsOf_def jsum_def jsub_def
        roundHalfUp_def Let_def)
qed

subsection \<open>The final result\<close>

lemma jsum_of_int: "jsum (map (\<lambda>k. Num (of_int k)) ks) = Num (of_int (sum_list ks))"
proof -
  have "map (\<lambda>k. Num (of_int k)) ks = map Num (map of_int ks)" by simp
  moreover have "sum_list (map of_int ks) = (of_int (sum_list ks) :: real)"
    by (induction ks) simp_all
  ultimately show ?thesis by (simp only: jsum_Num)
qed

lemma sliceLast_map: "sliceLast n (map f xs) = map f (sliceLast n xs)"
  by (simp add: sliceLast_def drop_map)

lemma length_sliceLast: "length (sliceLast n xs) = min n (length xs)"
  by (auto simp: sliceLast_def)

lemma accepted_list:
  assumes "list_all acceptedRate ms"
  shows "\<exists>ks. ms = map (\<lambda>k. Num (of_int k)) ks \<and> (\<forall>k\<in>set ks. 40 \<le> k \<and> k \<le> 220)"
  using assms
proof (induction ms)
  case Nil
  show ?case by simp
next
  case (Cons m ms)
  then obtain ks where ks: "ms = map (\<lambda>k. Num (of_int k)) ks" "\<forall>k\<in>set ks. 40 \<le> k \<and> k \<le> 220"
    by auto
  from Cons.prems obtain k :: int where k: "m = Num (of_int k)" "40 \<le> k" "k \<le> 220"
    by (auto simp: acceptedRate_def)
  show ?case using ks k by (intro exI [of _ "k # ks"]) simp
qed

lemma sum_list_int_bounds:
  fixes ks :: "int list"
  assumes "\<forall>k\<in>set ks. lo \<le> k \<and> k \<le> hi"
  shows "lo * int (length ks) \<le> sum_list ks \<and> sum_list ks \<le> hi * int (length ks)"
  using assms by (induction ks) (auto simp: algebra_simps)

text \<open>The draws of the random generator, scaled and rounded down.\<close>

lemma draw_below_one:
  assumes "draw u"
  shows "u \<le> 1 - 1 / 2 ^ 53"
proof (cases "u < 1 / 2")
  case True
  then show ?thesis by simp
next
  case False
  have u: "isDouble u" "u < 1" "u \<noteq> 0" using assms False by (simp_all add: draw_def)
  have e: "exponentOf u = - 1"
    using False u(2) by (intro exponentOf_eq[where p = "1 / 2"]) (simp_all add: powr_neg_numeral_two)
  define n where "n = roundTiesEven (u / 2 powr of_int (- 1 - 52))"
  from toDouble_form [OF u(1)[unfolded isDouble_def] u(3)]
  have "u = of_int n * 2 powr of_int (- 1 - 52)" unfolding e n_def by blast
  then have un: "u = of_int n / 2 ^ 53" by (simp add: powr_neg_numeral_two)
  then have "(of_int n :: real) < of_int (2 ^ 53)" using u(2) by simp
  then have "n < 2 ^ 53" by (simp only: of_int_less_iff)
  then have "n \<le> 2 ^ 53 - 1" by simp
  then have "(of_int n :: real) \<le> of_int (2 ^ 53 - 1)" by (simp only: of_int_le_iff)
  then show ?thesis unfolding un by (simp add: field_simps)
qed

lemma top_draw_20: "toDouble ((1 - 1 / 2 ^ 53) * 20) = Num (20 - 1 / 2 ^ 48)"
proof -
  have e: "exponentOf ((1 - 1 / 2 ^ 53) * 20) = 4"
    by (rule exponentOf_eq[where p = 16]) simp_all
  have r: "roundTiesEven ((1 - 1 / 2 ^ 53) * 20 / (1 / 2 ^ 48)) = 20 * 2 ^ 48 - 1"
    by (rule roundTiesEven_near) simp_all
  have "toDouble ((1 - 1 / 2 ^ 53) * 20) = Num (of_int (20 * 2 ^ 48 - 1) * (1 / 2 ^ 48))"
    by (rule toDouble_eval[OF e _ r]) (simp_all add: powr_neg_numeral_two)
  then show ?thesis by simp
qed

lemma top_draw_3: "toDouble ((1 - 1 / 2 ^ 53) * 3) = Num (3 - 1 / 2 ^ 51)"
proof -
  have e: "exponentOf ((1 - 1 / 2 ^ 53) * 3) = 1"
    by (rule exponentOf_eq[where p = 2]) simp_all
  have r: "roundTiesEven ((1 - 1 / 2 ^ 53) * 3 / (1 / 2 ^ 51)) = 3 * 2 ^ 51 - 1"
    by (rule roundTiesEven_near) simp_all
  have "toDouble ((1 - 1 / 2 ^ 53) * 3) = Num (of_int (3 * 2 ^ 51 - 1) * (1 / 2 ^ 51))"
    by (rule toDouble_eval[OF e _ r]) (simp_all add: powr_neg_numeral_two)
  then show ?thesis by simp
qed

lemma scaled_draw:
  assumes "draw u" "toDouble ((1 - 1 / 2 ^ 53) * of_int n) = Num hi" "hi < of_int n" "0 < n"
  shows "\<exists>k :: int. jfloor (dmul (Num u) (Num (of_int n))) = Num (of_int k) \<and> 0 \<le> k \<and> k < n"
proof -
  have u: "0 \<le> u" using assms(1) by (simp add: draw_def)
  have "0 \<le> u * of_int n" using u assms(4) by simp
  moreover have "u * of_int n \<le> (1 - 1 / 2 ^ 53) * of_int n"
    using draw_below_one [OF assms(1)] assms(4) by (intro mult_right_mono) simp_all
  ultimately obtain a where a: "toDouble (u * of_int n) = Num a" "0 \<le> a" "a \<le> hi"
    using toDouble_mono_nonneg [OF _ _ assms(2)] by blast
  have "a < of_int n" using a(3) assms(3) by simp
  then have "\<lfloor>a\<rfloor> < n" by (simp only: floor_less_iff)
  moreover have "0 \<le> \<lfloor>a\<rfloor>" using a(2) by simp
  ultimately show ?thesis using a(1) by (intro exI [of _ "\<lfloor>a\<rfloor>"]) (simp add: dmul_def)
qed

lemma scaled_draw_20:
  assumes "draw u"
  shows "\<exists>k :: int. jfloor (dmul (Num u) (Num 20)) = Num (of_int k) \<and> 0 \<le> k \<and> k < 20"
  using scaled_draw [OF assms, of 20 "20 - 1 / 2 ^ 48"] top_draw_20 by simp

lemma scaled_draw_3:
  assumes "draw u"
  shows "\<exists>k :: int. jfloor (dmul (Num u) (Num 3)) = Num (of_int k) \<and> 0 \<le> k \<and> k < 3"
  using scaled_draw [OF assms, of 3 "3 - 1 / 2 ^ 51"] top_draw_3 by simp

lemma dadd_small_ints:
  fixes a b :: int
  assumes "\<bar>a + b\<bar> < 2 ^ 53"
  shows "dadd (Num (of_int a)) (Num (of_int b)) = Num (of_int (a + b))"
  using toDouble_int [OF assms] by (simp add: dadd_def)

lemma generateSimulatedResult_values:
  assumes "draw random1" "draw random2"
  shows "\<exists>h ox :: int. 65 \<le> h \<and> h < 85 \<and> 96 \<le> ox \<and> ox < 99 \<and>
     generateSimulatedResult st random1 random2 =
       st\<lparr> heartRate := Some (Num (of_int h)), oxygenLevel := Some (Num (of_int ox)),
           measurements := [Num (of_int h)], showingResults := True \<rparr>"
proof -
  from scaled_draw_20 [OF assms(1)] obtain k :: int where
    k: "jfloor (dmul (Num random1) (Num 20)) = Num (of_int k)" "0 \<le> k" "k < 20" by blast
  from scaled_draw_3 [OF assms(2)] obtain j :: int where
    j: "jfloor (dmul (Num random2) (Num 3)) = Num (of_int j)" "0 \<le> j" "j < 3" by blast
  have h: "dadd (Num 65) (Num (of_int k)) = Num (of_int (65 + k))"
    using dadd_small_ints [of 65 k] k(2,3) by simp
  have ox: "dadd (Num 96) (Num (of_int j)) = Num (of_int (96 + j))"
    using dadd_small_ints [of 96 j] j(2,3) by simp
  show ?thesis
    using k(2,3) j(2,3)
    by (intro exI [of _ "65 + k"] exI [of _ "96 + j"])
       (simp add: generateSimulatedResult_def Let_def k(1) j(1) h ox)
qed

lemma finishMeasurement_average:
  assumes "2 \<le> length ks" "measurements render = map (\<lambda>k. Num (of_int k)) ks"
  shows "heartRate (finishMeasurement render st random1 random2) =
     Some (Num (of_int (roundHalfUp
        (of_int (sum_list (sliceLast 5 ks)) / real (length (sliceLast 5 ks))))))"
proof -
  have "real (length (sliceLast 5 ks)) \<noteq> 0" using assms(1) by (auto simp: length_sliceLast)
  then have "jround (jdiv (jsum (map (\<lambda>k. Num (of_int k)) (sliceLast 5 ks)))
        (Num (real (length (sliceLast 5 ks)))))
      = Num (of_int (roundHalfUp (of_int (sum_list (sliceLast 5 ks)) / real (length (sliceLast 5 ks)))))"
    by (simp add: jsum_of_int)
  then show ?thesis
    using assms(1) by (simp add: finishMeasurement_def assms(2) sliceLast_map Let_def)
qed

subsection \<open>The oxygenation estimator\<close>

lemma sumFrom_NaN: "sumFrom data j b NaN = NaN"
proof (induction data j b NaN rule: sumFrom.induct)
  case (1 data j b)
  show ?case
  proof (cases "j < b")
    case True
    then show ?thesis using 1 by (subst sumFrom.simps) simp
  next
    case False
    then show ?thesis by (subst sumFrom.simps) simp
  qed
qed

lemma sumFrom_first_NaN:
  assumes "j < b" "jsIndex data j = NaN"
  shows "sumFrom data j b acc = NaN"
  using assms by (subst sumFrom.simps) (simp add: sumFrom_NaN)

lemma third_not_integer:
  assumes "w mod 3 \<noteq> 0"
  shows "real i + real w / 3 \<noteq> of_int z"
proof
  assume "real i + real w / 3 = of_int z"
  then have "real w = 3 * (of_int z - real i)" by simp
  also have "\<dots> = of_int (3 * (z - int i))" by simp
  finally have "int w = 3 * (z - int i)" by linarith
  then have "int w mod 3 = 0" by simp
  then show False using assms by presburger
qed

lemma jsIndex_third:
  assumes "w mod 3 \<noteq> 0"
  shows "jsIndex data (real i + real w / 3) = NaN"
proof -
  have "real i + real w / 3 \<noteq> of_int \<lfloor>real i + real w / 3\<rfloor>"
    by (rule third_not_integer [OF assms])
  then show ?thesis unfolding jsIndex_def by (simp only: simp_thms if_False)
qed

lemma baselineAt_NaN:
  assumes "w mod 3 \<noteq> 0"
  shows "baselineAt data w i = NaN"
proof -
  have "0 < w" using assms by (cases w) simp_all
  then have "real i + real w / 3 < real i + real w" by simp
  then have "sumFrom data (real i + real w / 3) (real i + real w) acc = NaN" for acc
    by (rule sumFrom_first_NaN) (rule jsIndex_third [OF assms])
  then show ?thesis by (simp add: baselineAt_def Let_def)
qed

lemma foldl_update_length: "length (foldl (\<lambda>result i. result[i := f i]) data is) = length data"
  by (induction "is" arbitrary: data) simp_all

lemma foldl_update_nth:
  assumes "k \<in> set is" "k < length data"
  shows "foldl (\<lambda>result i. result[i := f i]) data is ! k = f k"
  using assms(1)
proof (induction "is" rule: rev_induct)
  case Nil
  then show ?case by simp
next
  case (snoc i "is")
  show ?case
  proof (cases "k = i")
    case True
    then show ?thesis using assms(2) by (simp add: foldl_update_length)
  next
    case False
    then have "k \<in> set is" using snoc.prems by simp
    then show ?thesis using False snoc.IH by simp
  qed
qed

lemma length_removeBaselineWander: "length (removeBaselineWander data) = length data"
  by (simp add: removeBaselineWander_def Let_def foldl_update_length)

lemma removeBaselineWander_NaN:
  assumes "3 \<le> min 50 (length data div 4)" "min 50 (length data div 4) mod 3 \<noteq> 0"
  shows "NaN \<in> set (removeBaselineWander data)"
proof -
  define w where "w = min 50 (length data div 4)"
  have w: "3 \<le> w" "w mod 3 \<noteq> 0" "w \<le> length data div 4" using assms by (simp_all add: w_def)
  then have range: "w \<in> set [w ..< length data - w]" "w < length data" by auto
  have "removeBaselineWander data =
      foldl (\<lambda>result i. result[i := jadd (jsub (data ! i) (baselineAt data w i)) (Num 50)])
        data [w ..< length data - w]"
    using w(1) by (simp add: removeBaselineWander_def w_def [symmetric])
  then have "removeBaselineWander data ! w = jadd (jsub (data ! w) (baselineAt data w w)) (Num 50)"
    using foldl_update_nth [OF range] by simp
  then have "removeBaselineWander data ! w = NaN"
    by (simp add: baselineAt_NaN [OF w(2)] jsub_def)
  moreover have "w < length (removeBaselineWander data)"
    using range(2) by (simp add: length_removeBaselineWander)
  ultimately show ?thesis by (metis nth_mem)
qed

lemma foldl_jmin2_NaN:
  assumes "acc = NaN \<or> NaN \<in> set xs"
  shows "foldl jmin2 acc xs = NaN"
  using assms by (induction xs arbitrary: acc) (auto simp: jmin2_def)

lemma foldl_jmax2_NaN:
  assumes "acc = NaN \<or> NaN \<in> set xs"
  shows "foldl jmax2 acc xs = NaN"
  using assms by (induction xs arbitrary: acc) (auto simp: jmax2_def)

lemma normalizeSignal_NaN:
  assumes "NaN \<in> set data"
  shows "normalizeSignal data = replicate (length data) NaN"
proof -
  have "mathMin data = NaN" "mathMax data = NaN"
    using assms by (simp_all add: mathMin_def mathMax_def foldl_jmin2_NaN foldl_jmax2_NaN)
  moreover have "data \<noteq> []" using assms by auto
  ultimately have "normalizeSignal data = map (\<lambda>val. NaN) data"
    by (simp add: normalizeSignal_def jeq_def jsub_def)
  then show ?thesis by (simp add: map_replicate_const)
qed

lemma applyAdvancedSignalProcessing_NaN:
  assumes "20 \<le> length data" "min 50 (length data div 4) mod 3 \<noteq> 0"
  shows "applyAdvancedSignalProcessing data = replicate (length data) NaN"
proof -
  define smoothed where "smoothed = applySavitzkyGolayFilter data 5 3"
  have len: "length smoothed = length data"
    by (simp add: smoothed_def applySavitzkyGolayFilter_def)
  have "3 \<le> min 50 (length smoothed div 4)" using assms(1) len by simp
  then have "NaN \<in> set (removeBaselineWander smoothed)"
    using assms(2) len by (intro removeBaselineWander_NaN) simp_all
  then have "normalizeSignal (removeBaselineWander smoothed)
      = replicate (length (removeBaselineWander smoothed)) NaN"
    by (rule normalizeSignal_NaN)
  then show ?thesis
    using assms(1)
    by (simp add: applyAdvancedSignalProcessing_def smoothed_def [symmetric] Let_def
        length_removeBaselineWander len)
qed

lemma jsum_NaNs: "0 < n \<Longrightarrow> jsum (replicate n NaN) = NaN"
  unfolding jsum_def using foldl_jadd_NaN_term [of "Num 0" "replicate n NaN" "\<lambda>v. v"] by simp

lemma calculatePulsatilityIndex_NaNs:
  assumes "5 \<le> n"
  shows "calculatePulsatilityIndex (replicate n NaN) = NaN"
proof -
  have "0 < n" using assms by simp
  then have "mathMax (replicate n NaN) = NaN" "jsum (replicate n NaN) = NaN"
    by (simp_all add: mathMax_def foldl_jmax2_NaN jsum_NaNs)
  moreover have "jdiv x NaN = NaN" for x by (cases x) simp_all
  ultimately show ?thesis using assms by (simp add: calculatePulsatilityIndex_def jeq_def Let_def)
qed

lemma calculateSignalQuality_NaNs:
  assumes "20 \<le> n"
  shows "calculateSignalQuality (replicate n NaN) = Num (2 / 10)"
proof -
  have "\<not> list_all isNum (replicate n NaN)" using assms by (cases n) simp_all
  then have "enhancedPeakDetection (replicate n NaN) = []"
    using peaks_need_finite_data by blast
  then show ?thesis using assms by (simp add: calculateSignalQuality_def)
qed

text \<open>Whenever the window of the baseline removal, \<open>min 50 (n div 4)\<close> for the
  \<open>n\<close> most recent samples, is not a multiple of 3, the second loop of
  \<^verbatim>\<open>removeBaselineWander\<close> reads the array at \<open>i + windowSize / 3\<close>, which is not an
  index: the baseline, the conditioned channel and the estimate are \<^verbatim>\<open>NaN\<close>.\<close>

lemma enhancedOxygenEstimation_NaN_general:
  assumes "30 \<le> length red" "30 \<le> length green" "30 \<le> length blue"
    and "min 50 (length (sliceLast 100 red) div 4) mod 3 \<noteq> 0"
    and "min 50 (length (sliceLast 100 green) div 4) mod 3 \<noteq> 0"
    and "min 50 (length (sliceLast 100 blue) div 4) mod 3 \<noteq> 0"
  shows "enhancedOxygenEstimation red green blue = Some NaN"
proof -
  define nr where "nr = length (sliceLast 100 red)"
  define ng where "ng = length (sliceLast 100 green)"
  define nb where "nb = length (sliceLast 100 blue)"
  have n: "30 \<le> nr" "30 \<le> ng" "30 \<le> nb"
    using assms(1-3) by (simp_all add: nr_def ng_def nb_def length_sliceLast)
  have pr: "applyAdvancedSignalProcessing (sliceLast 100 red) = replicate nr NaN"
    unfolding nr_def using n(1) assms(4) by (intro applyAdvancedSignalProcessing_NaN) (simp_all add: nr_def)
  have pg: "applyAdvancedSignalProcessing (sliceLast 100 green) = replicate ng NaN"
    unfolding ng_def using n(2) assms(5) by (intro applyAdvancedSignalProcessing_NaN) (simp_all add: ng_def)
  have pb: "applyAdvancedSignalProcessing (sliceLast 100 blue) = replicate nb NaN"
    unfolding nb_def using n(3) assms(6) by (intro applyAdvancedSignalProcessing_NaN) (simp_all add: nb_def)
  have pi: "calculatePulsatilityIndex (replicate nr NaN) = NaN"
    using n(1) by (intro calculatePulsatilityIndex_NaNs) simp
  have q: "calculateSignalQuality (replicate nr NaN) = Num (2 / 10)"
    "calculateSignalQuality (replicate ng NaN) = Num (2 / 10)"
    "calculateSignalQuality (replicate nb NaN) = Num (2 / 10)"
    using n by (simp_all add: calculateSignalQuality_NaNs)
  show ?thesis
    using assms(1-3)
    by (simp add: enhancedOxygenEstimation_def Let_def pr pg pb pi q jgt_def jsub_def
        jmin2_def jmax2_def)
qed

text \<open>
  C7. The claim says that with at least 30 samples in each history the estimator
  returns the rounded weighted average clamped to [85, 100] (or 97). In the source
  the estimate is not within [85, 100] once the histories hold 100 samples or more:
  the window is 25, every conditioned channel is \<^verbatim>\<open>NaN\<close> throughout, the quality
  of each is 0.2, the total weight is positive, and \<^verbatim>\<open>Math.min(100, Math.max(85, NaN))\<close>
  is \<^verbatim>\<open>NaN\<close>.
\<close>

theorem enhancedOxygenEstimation_NaN:
  assumes "100 \<le> length red" "100 \<le> length green" "100 \<le> length blue"
  shows "enhancedOxygenEstimation red green blue = Some NaN"
  using assms by (intro enhancedOxygenEstimation_NaN_general) (simp_all add: length_sliceLast)

theorem enhancedOxygenEstimation_NaN_witness:
  "enhancedOxygenEstimation (replicate 100 (Num 200)) (replicate 100 (Num 100))
     (replicate 100 (Num 50)) = Some NaN"
  by (rule enhancedOxygenEstimation_NaN) simp_all

subsection \<open>Every reachable state\<close>

lemma sound_simulated:
  assumes "sound st" "draw random1" "draw random2"
  shows "sound (generateSimulatedResult st random1 random2)"
proof -
  from generateSimulatedResult_values [OF assms(2,3), of st] obtain h ox :: int where
    h: "65 \<le> h" "h < 85"
      "generateSimulatedResult st random1 random2 =
         st\<lparr> heartRate := Some (Num (of_int h)), oxygenLevel := Some (Num (of_int ox)),
             measurements := [Num (of_int h)], showingResults := True \<rparr>"
    by blast
  have "acceptedRate (Num (of_int h))" unfolding acceptedRate_def using h(1,2) by auto
  then show ?thesis
    using assms(1) acceptedRate_plausible unfolding sound_def h(3) by simp
qed

lemma finishMeasurement_plausible:
  assumes "list_all acceptedRate (measurements render)" "2 \<le> length (measurements render)"
  shows "plausibleRate (heartRate (finishMeasurement render st random1 random2))"
proof -
  from accepted_list [OF assms(1)] obtain ks where
    ks: "measurements render = map (\<lambda>k. Num (of_int k)) ks" "\<forall>k\<in>set ks. 40 \<le> k \<and> k \<le> 220"
    by blast
  define rs where "rs = sliceLast 5 ks"
  define n where "n = int (length rs)"
  have len: "2 \<le> length ks" using assms(2) by (simp add: ks(1))
  then have n: "0 < n" by (auto simp: n_def rs_def length_sliceLast)
  have "set rs \<subseteq> set ks" unfolding rs_def sliceLast_def by (rule set_drop_subset)
  then have "\<forall>k\<in>set rs. 40 \<le> k \<and> k \<le> 220" using ks(2) by blast
  from sum_list_int_bounds [OF this]
  have b: "40 * n \<le> sum_list rs" "sum_list rs \<le> 220 * n" by (simp_all add: n_def)
  define avg :: real where "avg = of_int (sum_list rs) / of_int n"
  have "of_int (40 * n) \<le> (of_int (sum_list rs) :: real)" using b(1) by (simp only: of_int_le_iff)
  then have lo: "40 \<le> avg" using n by (simp add: avg_def pos_le_divide_eq)
  have "(of_int (sum_list rs) :: real) \<le> of_int (220 * n)" using b(2) by (simp only: of_int_le_iff)
  then have hi: "avg \<le> 220" using n by (simp add: avg_def pos_divide_le_eq)
  have "of_int 40 \<le> avg + 1 / 2" using lo by simp
  then have r1: "40 \<le> roundHalfUp avg" unfolding roundHalfUp_def by (simp only: le_floor_iff)
  have "avg + 1 / 2 < of_int 221" using hi by simp
  then have "roundHalfUp avg < 221" unfolding roundHalfUp_def by (simp only: floor_less_iff)
  then have r2: "roundHalfUp avg \<le> 220" by simp
  have "heartRate (finishMeasurement render st random1 random2) = Some (Num (of_int (roundHalfUp avg)))"
    using finishMeasurement_average [OF len ks(1), of st random1 random2]
    by (simp add: avg_def rs_def n_def)
  then show ?thesis using r1 r2 unfolding plausibleRate_def by simp
qed

lemma sound_finished:
  assumes "sound render" "sound st" "draw random1" "draw random2"
  shows "sound (finishMeasurement render st random1 random2)"
proof (cases "2 \<le> length (measurements render)")
  case True
  have "plausibleRate (heartRate (finishMeasurement render st random1 random2))"
    using assms(1) True unfolding sound_def by (intro finishMeasurement_plausible) simp_all
  moreover have "measurements (finishMeasurement render st random1 random2) = measurements st"
    "confidence (finishMeasurement render st random1 random2) = confidence st"
    using True by (simp_all add: finishMeasurement_def Let_def)
  ultimately show ?thesis using assms(2) unfolding sound_def by simp
next
  case False
  have "sound (st\<lparr> isMeasuring := False, calibrating := False \<rparr>)"
    using assms(2) unfolding sound_def by simp
  from sound_simulated [OF this assms(3,4)] show ?thesis
    using False by (simp add: finishMeasurement_def Let_def)
qed

lemma sound_timers:
  assumes "soundComponent c" "timer c = Some render \<or> render \<in> set (leaked c)"
  shows "sound render"
  using assms unfolding soundComponent_def by (auto simp: list_all_iff)

lemma reachable_sound: "reachable c \<Longrightarrow> soundComponent c"
proof (induction rule: reachable.induct)
  case mount
  show ?case
    by (simp add: soundComponent_def mountedComponent_def sound_def initialMonitor_def
        plausibleRate_def percentage_def)
next
  case (start c render)
  then have "sound render" by (auto simp: soundComponent_def list_all_iff)
  moreover have "sound (startMeasurement (current c))"
    using start.IH by (simp add: soundComponent_def sound_def startMeasurement_def)
  ultimately show ?case
    using start.IH by (simp add: soundComponent_def started_def split: option.splits)
next
  case (sample c render rgb)
  from sound_timers [OF sample.IH sample.hyps(2)] have "sound render" .
  then have "sound (sampleTick render (current c) rgb)"
    using sample.IH by (intro sound_sampled) (simp_all add: soundComponent_def)
  then show ?case using sample.IH by (simp add: soundComponent_def sampled_def)
next
  case (stop c)
  then show ?case by (simp add: soundComponent_def stopped_def sound_def stopMeasurement_def)
next
  case (finish c render random1 random2)
  from sound_timers [OF finish.IH finish.hyps(2)] have "sound render" .
  then have "sound (finishMeasurement render (current c) random1 random2)"
    using finish by (intro sound_finished) (simp_all add: soundComponent_def)
  then show ?case using finish.IH by (simp add: soundComponent_def finished_def)
next
  case (simulate c random1 random2)
  then have "sound (generateSimulatedResult (current c) random1 random2)"
    by (intro sound_simulated) (simp_all add: soundComponent_def)
  then show ?case using simulate.IH by (simp add: soundComponent_def simulated_def)
qed

text \<open>The executions are executions of the component.\<close>

lemma reachable_press: "reachable c \<Longrightarrow> reachable (press c)"
  unfolding press_def by (rule reachable.start) simp_all

lemma reachable_frame: "reachable c \<Longrightarrow> reachable (frame rgb c)"
  unfolding frame_def by (cases "timer c") (simp_all add: reachable.sample)

lemma reachable_timeUp:
  "reachable c \<Longrightarrow> draw random1 \<Longrightarrow> draw random2 \<Longrightarrow> reachable (timeUp random1 random2 c)"
  unfolding timeUp_def by (cases "timer c") (simp_all add: reachable.finish)

lemma reachable_frames:
  "reachable c \<Longrightarrow> reachable (foldl (\<lambda>c g. frame (liveFrame g) c) c greens)"
  by (induction greens arbitrary: c) (simp_all add: reachable_frame)

lemma reachable_firstSession: "reachable (firstSession greens)"
  unfolding firstSession_def
  by (intro reachable.stop reachable_frames reachable_press reachable.mount)

lemma reachable_secondSession: "reachable (secondSession greens n)"
  unfolding secondSession_def
  by (induction n) (simp_all add: reachable_press reachable_firstSession reachable_frame)

lemma reachable_thirdSession: "reachable (thirdSession greens n)"
  unfolding thirdSession_def
  by (intro reachable_press reachable.stop reachable_secondSession)

lemma draw_half: "draw (1 / 2)"
proof -
  have e: "exponentOf (1 / 2) = - 1"
    by (rule exponentOf_eq[where p = "1 / 2"]) (simp_all add: powr_neg_numeral_two)
  have "toDouble (1 / 2) = Num (1 / 2)"
    by (rule toDouble_exact[OF e, where u = "1 / 2 ^ 53" and n = "2 ^ 52"])
      (simp_all add: powr_neg_numeral_two)
  then show ?thesis by (simp add: draw_def isDouble_def)
qed

text \<open>The first session. Its timer was created by the render of the mounted
  component, whose signal is empty: a live frame extends the histories and
  nothing else.\<close>

lemma live_frame: "g = Num 20 \<or> g = Num 120 \<Longrightarrow> verifyHumanFingerprint (Num 200) g (Num 10)"
  by (auto simp: verifyHumanFingerprint_def truthy_def jgt_def)

lemma first_session_frame:
  assumes "g = Num 20 \<or> g = Num 120"
  shows "sampleTick initialMonitor st (liveFrame g) =
     st\<lparr> isHumanDetected := True, redData := redData st @ [Num 200],
         greenData := greenData st @ [g], blueData := blueData st @ [Num 10],
         signal := signal st @ [g] \<rparr>"
  using live_frame [OF assms] by (simp add: sampleTick_def liveFrame_def initialMonitor_def)

lemma first_session_frames:
  assumes "list_all (\<lambda>g. g = Num 20 \<or> g = Num 120) greens" "timer c = Some initialMonitor"
  shows "timer (foldl (\<lambda>c g. frame (liveFrame g) c) c greens) = Some initialMonitor \<and>
    signal (current (foldl (\<lambda>c g. frame (liveFrame g) c) c greens)) = signal (current c) @ greens \<and>
    length (redData (current (foldl (\<lambda>c g. frame (liveFrame g) c) c greens))) =
      length (redData (current c)) + length greens \<and>
    heartRate (current (foldl (\<lambda>c g. frame (liveFrame g) c) c greens)) = heartRate (current c) \<and>
    oxygenLevel (current (foldl (\<lambda>c g. frame (liveFrame g) c) c greens)) = oxygenLevel (current c) \<and>
    confidence (current (foldl (\<lambda>c g. frame (liveFrame g) c) c greens)) = confidence (current c) \<and>
    measurements (current (foldl (\<lambda>c g. frame (liveFrame g) c) c greens)) = measurements (current c)"
  using assms
proof (induction greens arbitrary: c)
  case Nil
  then show ?case by simp
next
  case (Cons g greens)
  define c1 where "c1 = frame (liveFrame g) c"
  have g: "g = Num 20 \<or> g = Num 120" using Cons.prems(1) by simp
  have c1: "c1 = sampled initialMonitor (liveFrame g) c"
    using Cons.prems(2) by (simp add: c1_def frame_def)
  have t: "timer c1 = Some initialMonitor" using Cons.prems(2) by (simp add: c1 sampled_def)
  have rest: "list_all (\<lambda>g. g = Num 20 \<or> g = Num 120) greens" using Cons.prems(1) by simp
  have cur: "current c1 = (current c)\<lparr> isHumanDetected := True,
      redData := redData (current c) @ [Num 200], greenData := greenData (current c) @ [g],
      blueData := blueData (current c) @ [Num 10], signal := signal (current c) @ [g] \<rparr>"
    by (simp add: c1 sampled_def first_session_frame [OF g])
  from Cons.IH [OF rest t] show ?case
    unfolding foldl_Cons c1_def [symmetric] by (simp add: cur)
qed

lemma firstSession_state:
  assumes "list_all (\<lambda>g. g = Num 20 \<or> g = Num 120) greens"
  shows "timer (firstSession greens) = None \<and>
    signal (current (firstSession greens)) = greens \<and>
    length (redData (current (firstSession greens))) = length greens \<and>
    heartRate (current (firstSession greens)) = None \<and>
    oxygenLevel (current (firstSession greens)) = None \<and>
    confidence (current (firstSession greens)) = Num 0 \<and>
    measurements (current (firstSession greens)) = []"
proof -
  have t: "timer (press mountedComponent) = Some initialMonitor"
    by (simp add: press_def started_def mountedComponent_def)
  from first_session_frames [OF assms t] show ?thesis
    by (simp add: firstSession_def stopped_def stopMeasurement_def press_def started_def
        startMeasurement_def mountedComponent_def initialMonitor_def)
qed

text \<open>The second session. Its timer was created by the render that ended the first
  session: at every tick the callback reads the signal of the first session, no
  displayed heart rate and the confidence 0.\<close>

lemma secondSession_timer:
  "timer (secondSession greens n) = Some (current (firstSession greens))"
proof (induction n)
  case 0
  show ?case by (simp add: secondSession_def press_def started_def)
next
  case (Suc n)
  then show ?case by (simp add: secondSession_def frame_def sampled_def)
qed

lemma secondSession_Suc:
  "current (secondSession greens (Suc n)) =
     sampleTick (current (firstSession greens)) (current (secondSession greens n))
       (liveFrame (Num 20))"
  using secondSession_timer [of greens n]
  by (simp add: secondSession_def frame_def sampled_def)

lemma kalman_first: "kalmanFilterHeartRate None (Num 200) (Num 0) = Num 138"
proof -
  have "\<lfloor>(75 + 101 * 125 / 201 + 1 / 2 :: real)\<rfloor> = 138"
    by (simp add: floor_eq_iff)
  then show ?thesis
    by (simp add: kalmanFilterHeartRate_def kalmanUpdate_def kalmanGainOf_def
        predictedErrorCovarianceOf_def kalmanInitialState_def processNoise_def jsub_def Let_def
        roundHalfUp_def)
qed


lemma pulse_tick:
  assumes "signal render = pulseSignal" "heartRate render = None" "confidence render = Num 0"
    "length (redData render) < 30"
  shows "measurements (sampleTick render st (liveFrame (Num 20))) = measurements st @ [Num 138] \<and>
    heartRate (sampleTick render st (liveFrame (Num 20))) = Some (Num 138) \<and>
    oxygenLevel (sampleTick render st (liveFrame (Num 20))) = oxygenLevel st"
proof -
  have len: "length pulseSignal = 15" by (simp add: pulseSignal_def)
  have proc: "processPPG pulseSignal = pulseSignal"
    by (simp add: processPPG_def applyAdvancedSignalProcessing_def len)
  have rate: "calculatedHROf (enhancedPeakDetection pulseSignal) = Num 200"
    using pulseSignal_rate by (simp add: proc)
  have two: "2 \<le> length (enhancedPeakDetection pulseSignal)"
    by (simp add: pulseSignal_peaks)
  have ox: "enhancedOxygenEstimation (redData render) (greenData render) (blueData render) = None"
    using assms(4) by (simp add: enhancedOxygenEstimation_def)
  have upd: "measurements (heartRateUpdate render st) = measurements st @ [Num 138]"
    "heartRate (heartRateUpdate render st) = Some (Num 138)"
    "oxygenLevel (heartRateUpdate render st) = oxygenLevel st"
    using two
    by (simp_all add: heartRateUpdate_def assms(1,2,3) proc rate kalman_first ox Let_def
        jge_def jle_def jeq_def MIN_HEARTRATE_def MAX_HEARTRATE_def)
  have live: "verifyHumanFingerprint (Num 200) (Num 20) (Num 10)"
    by (rule live_frame) simp
  show ?thesis
    using live upd by (simp add: sampleTick_def liveFrame_def Let_def assms(1) len)
qed

lemma pulseSignal_greens: "list_all (\<lambda>g. g = Num 20 \<or> g = Num 120) pulseSignal"
  by (simp add: pulseSignal_def)

lemma fastSignal_greens: "list_all (\<lambda>g. g = Num 20 \<or> g = Num 120) fastSignal"
  by (simp add: fastSignal_def)

lemma secondSession_pulse:
  "measurements (current (secondSession pulseSignal n)) = replicate n (Num 138) \<and>
   heartRate (current (secondSession pulseSignal n)) = (if n = 0 then None else Some (Num 138)) \<and>
   oxygenLevel (current (secondSession pulseSignal n)) = None"
proof (induction n)
  case 0
  from firstSession_state [OF pulseSignal_greens] show ?case
    by (simp add: secondSession_def press_def started_def startMeasurement_def)
next
  case (Suc n)
  from firstSession_state [OF pulseSignal_greens]
  have r: "signal (current (firstSession pulseSignal)) = pulseSignal"
    "heartRate (current (firstSession pulseSignal)) = None"
    "confidence (current (firstSession pulseSignal)) = Num 0"
    "length (redData (current (firstSession pulseSignal))) < 30"
    by (simp_all add: pulseSignal_def)
  from pulse_tick [OF r, of "current (secondSession pulseSignal n)"] Suc.IH
  show ?case
    unfolding secondSession_Suc by (simp add: replicate_append_same)
qed

text \<open>
  C1. In every state the component can reach, every value in the measurements (each
  was appended by the rate estimator, or synthesized at the end of a session) is
  an integer within [40, 220], and the displayed heart rate is absent or within
  [40, 220]. When the instantaneous rate computed from the peaks is outside
  [40, 220], the sampling callback changes neither the measurements nor the
  displayed heart rate, the confidence or the oxygen level.
\<close>

theorem accepted_rates_plausible:
  "(reachable c \<longrightarrow>
      list_all acceptedRate (measurements (current c)) \<and> plausibleRate (heartRate (current c))) \<and>
   (\<not> (jge (calculatedHROf (enhancedPeakDetection (processPPG (signal render)))) MIN_HEARTRATE
        \<and> jle (calculatedHROf (enhancedPeakDetection (processPPG (signal render)))) MAX_HEARTRATE)
    \<longrightarrow> measurements (sampleTick render st rgb) = measurements st \<and>
        heartRate (sampleTick render st rgb) = heartRate st \<and>
        confidence (sampleTick render st rgb) = confidence st \<and>
        oxygenLevel (sampleTick render st rgb) = oxygenLevel st)"
  using reachable_sound [of c] rejected_rate_discarded [of render st rgb]
  unfolding soundComponent_def sound_def by blast

text \<open>Two executions: in the second session on the pulse signal the rate 200 is
  accepted and 138 is stored; in the second session on the fast signal the rate
  225 is computed and nothing is stored.\<close>

theorem accepted_rates_plausible_witness:
  "reachable (secondSession pulseSignal 1) \<and>
   measurements (current (secondSession pulseSignal 1)) = [Num 138] \<and>
   list_all acceptedRate (measurements (current (secondSession pulseSignal 1))) \<and>
   plausibleRate (heartRate (current (secondSession pulseSignal 1))) \<and>
   reachable (secondSession fastSignal 1) \<and>
   calculatedHROf (enhancedPeakDetection (processPPG fastSignal)) = Num 225 \<and>
   measurements (current (secondSession fastSignal 1)) = [] \<and>
   heartRate (current (secondSession fastSignal 1)) = None"
proof -
  define render where "render = current (firstSession fastSignal)"
  define st where "st = current (secondSession fastSignal 0)"
  from firstSession_state [OF fastSignal_greens]
  have r: "signal render = fastSignal" "heartRate render = None"
    by (simp_all add: render_def)
  have st: "measurements st = []" "heartRate st = None"
    using r(2) by (simp_all add: st_def secondSession_def press_def started_def
        startMeasurement_def render_def)
  have rejected: "\<not> (jge (calculatedHROf (enhancedPeakDetection (processPPG (signal render)))) MIN_HEARTRATE
        \<and> jle (calculatedHROf (enhancedPeakDetection (processPPG (signal render)))) MAX_HEARTRATE)"
    by (simp add: r(1) fastSignal_rate jle_def jeq_def MAX_HEARTRATE_def)
  have cur: "current (secondSession fastSignal (Suc 0)) = sampleTick render st (liveFrame (Num 20))"
    using secondSession_Suc [of fastSignal 0] by (simp add: render_def st_def)
  note a = accepted_rates_plausible [of "secondSession pulseSignal 1" render st "liveFrame (Num 20)"]
  from a rejected have "measurements (sampleTick render st (liveFrame (Num 20))) = measurements st"
    "heartRate (sampleTick render st (liveFrame (Num 20))) = heartRate st" by blast+
  then have fast: "measurements (current (secondSession fastSignal 1)) = []"
    "heartRate (current (secondSession fastSignal 1)) = None"
    by (simp_all add: cur st)
  from a reachable_secondSession [of pulseSignal 1]
  have "list_all acceptedRate (measurements (current (secondSession pulseSignal 1)))"
    "plausibleRate (heartRate (current (secondSession pulseSignal 1)))" by blast+
  moreover have "measurements (current (secondSession pulseSignal 1)) = [Num 138]"
    using secondSession_pulse [of 1] by simp
  ultimately show ?thesis
    using fast reachable_secondSession fastSignal_rate by blast
qed


text \<open>
  C9. The \<^verbatim>\<open>finishMeasurement\<close> that the timer calls is the one of the render that
  started the session: it reads the measurements as they were before the session
  was started. The second session on the pulse signal accepts three estimates,
  138 each; when its time is up the controller finds no measurement, and reports
  a synthesized result (75 and 97 for the draws 0.5 and 0.5) in place of the
  average 138. The third session accepts no estimate; when its time is up the
  controller reports 138, the average of the estimates of the second session,
  and not a synthesized result.
\<close>

theorem finishMeasurement_reads_earlier_session:
  "reachable (timeUp (1 / 2) (1 / 2) (secondSession pulseSignal 3)) \<and>
   measurements (current (secondSession pulseSignal 3)) = [Num 138, Num 138, Num 138] \<and>
   heartRate (current (timeUp (1 / 2) (1 / 2) (secondSession pulseSignal 3))) = Some (Num 75) \<and>
   oxygenLevel (current (timeUp (1 / 2) (1 / 2) (secondSession pulseSignal 3))) = Some (Num 97) \<and>
   measurements (current (timeUp (1 / 2) (1 / 2) (secondSession pulseSignal 3))) = [Num 75] \<and>
   reachable (timeUp (1 / 2) (1 / 2) (thirdSession pulseSignal 3)) \<and>
   measurements (current (thirdSession pulseSignal 3)) = [] \<and>
   heartRate (current (timeUp (1 / 2) (1 / 2) (thirdSession pulseSignal 3))) = Some (Num 138) \<and>
   measurements (current (timeUp (1 / 2) (1 / 2) (thirdSession pulseSignal 3))) = []"
proof -
  have ten: "toDouble 10 = Num 10" using toDouble_int [of 10] by simp
  have e: "exponentOf (3 / 2) = 0"
    by (rule exponentOf_eq[where p = 1]) simp_all
  have half3: "toDouble (3 / 2) = Num (3 / 2)"
    by (rule toDouble_exact[OF e, where u = "1 / 2 ^ 52" and n = "3 * 2 ^ 51"])
      (simp_all add: powr_neg_numeral_two)
  have hr: "dadd (Num 65) (jfloor (dmul (Num (1 / 2)) (Num 20))) = Num 75"
    using dadd_small_ints [of 65 10] by (simp add: dmul_def ten)
  have "\<lfloor>3 / 2 :: real\<rfloor> = 1" by (simp add: floor_eq_iff)
  then have fl: "jfloor (dmul (Num (1 / 2)) (Num 3)) = Num 1"
    by (simp add: dmul_def half3)
  have o2: "dadd (Num 96) (Num 1) = Num 97" "dadd (Num 1) (Num 96) = Num 97"
    using dadd_small_ints [of 96 1] dadd_small_ints [of 1 96] by simp_all
  have sim: "generateSimulatedResult st (1 / 2) (1 / 2) =
      st\<lparr> heartRate := Some (Num 75), oxygenLevel := Some (Num 97),
          measurements := [Num 75], showingResults := True \<rparr>" for st
    by (simp add: generateSimulatedResult_def Let_def hr fl o2)
  from firstSession_state [OF pulseSignal_greens]
  have first: "measurements (current (firstSession pulseSignal)) = []" by simp
  have second: "measurements (current (secondSession pulseSignal 3)) = [Num 138, Num 138, Num 138]"
    "oxygenLevel (current (secondSession pulseSignal 3)) = None"
    using secondSession_pulse [of 3] by (simp_all add: numeral_3_eq_3)
  have up2: "current (timeUp (1 / 2) (1 / 2) (secondSession pulseSignal 3)) =
      finishMeasurement (current (firstSession pulseSignal)) (current (secondSession pulseSignal 3))
        (1 / 2) (1 / 2)"
    using secondSession_timer [of pulseSignal 3] by (simp add: timeUp_def finished_def)
  have a: "heartRate (current (timeUp (1 / 2) (1 / 2) (secondSession pulseSignal 3))) = Some (Num 75)"
    "oxygenLevel (current (timeUp (1 / 2) (1 / 2) (secondSession pulseSignal 3))) = Some (Num 97)"
    "measurements (current (timeUp (1 / 2) (1 / 2) (secondSession pulseSignal 3))) = [Num 75]"
    unfolding up2 by (simp_all add: finishMeasurement_def first sim Let_def)
  define render where "render = current (stopped (secondSession pulseSignal 3))"
  have render: "measurements render = map (\<lambda>k. Num (of_int k)) [138, 138, 138]"
    using second(1) by (simp add: render_def stopped_def stopMeasurement_def)
  have third: "timer (thirdSession pulseSignal 3) = Some render"
    "measurements (current (thirdSession pulseSignal 3)) = []"
    by (simp_all add: thirdSession_def press_def started_def startMeasurement_def render_def)
  have up3: "current (timeUp (1 / 2) (1 / 2) (thirdSession pulseSignal 3)) =
      finishMeasurement render (current (thirdSession pulseSignal 3)) (1 / 2) (1 / 2)"
    using third(1) by (simp add: timeUp_def finished_def)
  have "roundHalfUp (of_int (138 + 138 + 138) / 3) = 138"
    by (simp add: roundHalfUp_def floor_eq_iff)
  then have b: "heartRate (current (timeUp (1 / 2) (1 / 2) (thirdSession pulseSignal 3))) = Some (Num 138)"
    unfolding up3 using finishMeasurement_average [OF _ render, of "current (thirdSession pulseSignal 3)" "1 / 2" "1 / 2"]
    by (simp add: sliceLast_def)
  have c: "measurements (current (timeUp (1 / 2) (1 / 2) (thirdSession pulseSignal 3))) = []"
    unfolding up3 using render third(2) by (simp add: finishMeasurement_def Let_def)
  have r2: "reachable (timeUp (1 / 2) (1 / 2) (secondSession pulseSignal 3))"
    by (intro reachable_timeUp reachable_secondSession draw_half)
  have r3: "reachable (timeUp (1 / 2) (1 / 2) (thirdSession pulseSignal 3))"
    by (intro reachable_timeUp reachable_thirdSession draw_half)
  from r2 second(1) a r3 third(2) b c show ?thesis by blast
qed

end
